theory Spec2Isabelle
  imports Complex_Main "HOL-Library.Char_ord" "HOL-Library.List_Lexorder" "HOL-Library.Multiset"
    "HOL-Library.Sublist"
begin

section \<open>Python text primitives used by both tools\<close>

text \<open>
  Both scripts read a label file with \<^verbatim>\<open>path.read_text().strip().splitlines()\<close> and cut
  each line with \<^verbatim>\<open>line.split()\<close>. A text is a list of characters; a character is a code
  point below 256, which covers the label format (digits, sign, dot, blanks, line ends).
  The two character classes below are Python's, restricted to that range:
  \<^verbatim>\<open>str.isspace\<close> holds for code points 9-13, 28-32, 133 and 160, and
  \<^verbatim>\<open>str.splitlines\<close> breaks at 10-13, 28-30 and 133 (with CR LF taken as one break).
\<close>

definition whitespace_chars :: "char list" where
  "whitespace_chars =
     [CHR 0x09, CHR 0x0A, CHR 0x0B, CHR 0x0C, CHR 0x0D,
      CHR 0x1C, CHR 0x1D, CHR 0x1E, CHR 0x1F, CHR 0x20, CHR 0x85, CHR 0xA0]"

definition linebreak_chars :: "char list" where
  "linebreak_chars =
     [CHR 0x0A, CHR 0x0B, CHR 0x0C, CHR 0x0D, CHR 0x1C, CHR 0x1D, CHR 0x1E, CHR 0x85]"

definition is_space :: "char \<Rightarrow> bool" where
  "is_space c \<longleftrightarrow> c \<in> set whitespace_chars"

definition is_linebreak :: "char \<Rightarrow> bool" where
  "is_linebreak c \<longleftrightarrow> c \<in> set linebreak_chars"

text \<open>\<^verbatim>\<open>s.strip()\<close>: drop the whitespace at both ends.\<close>

definition strip :: "string \<Rightarrow> string" where
  "strip s = rev (dropWhile is_space (rev (dropWhile is_space s)))"

text \<open>
  \<^verbatim>\<open>s.splitlines()\<close>: one entry per line, the breaks removed; a break at the very end
  opens no further line, and the empty text has no line at all.
\<close>

fun splitlines_from :: "string \<Rightarrow> string \<Rightarrow> string list" where
  "splitlines_from cur [] = (if cur = [] then [] else [rev cur])"
| "splitlines_from cur [c] =
     (if is_linebreak c then [rev cur] else [rev (c # cur)])"
| "splitlines_from cur (c # d # cs) =
     (if c = CHR 0x0D \<and> d = CHR 0x0A then rev cur # splitlines_from [] cs
      else if is_linebreak c then rev cur # splitlines_from [] (d # cs)
      else splitlines_from (c # cur) (d # cs))"

definition splitlines :: "string \<Rightarrow> string list" where
  "splitlines s = splitlines_from [] s"

text \<open>
  \<^verbatim>\<open>s.split()\<close> with no argument: the maximal runs of non-whitespace characters, in
  order; leading, trailing and repeated whitespace yields no empty token.
\<close>

fun split_from :: "string \<Rightarrow> string \<Rightarrow> string list" where
  "split_from cur [] = (if cur = [] then [] else [rev cur])"
| "split_from cur (c # cs) =
     (if is_space c then (if cur = [] then split_from [] cs else rev cur # split_from [] cs)
      else split_from (c # cur) cs)"

definition py_split :: "string \<Rightarrow> string list" where
  "py_split s = split_from [] s"

text \<open>\<^verbatim>\<open>sep.join(parts)\<close>.\<close>

fun join :: "string \<Rightarrow> string list \<Rightarrow> string" where
  "join sep [] = []"
| "join sep [p] = p"
| "join sep (p # q # ps) = p @ sep @ join sep (q # ps)"

text \<open>
  \<^verbatim>\<open>int(token)\<close> in base 10: surrounding whitespace is dropped, then an optional sign,
  then decimal digits in which single underscores may separate digits. Anything else is
  a \<^verbatim>\<open>ValueError\<close>, here \<open>None\<close>. The interpreter's optional cap on the number of
  digits is not modelled.
\<close>

definition digit_val :: "char \<Rightarrow> nat option" where
  "digit_val c = map_of (zip ''0123456789'' [0 ..< 10]) c"

fun parse_digits :: "nat \<Rightarrow> string \<Rightarrow> nat option" where
  "parse_digits acc [] = Some acc"
| "parse_digits acc (c # cs) =
     (if c = CHR ''_'' then
        (case cs of
           [] \<Rightarrow> None
         | d # _ \<Rightarrow> (if digit_val d = None then None else parse_digits acc cs))
      else
        (case digit_val c of
           None \<Rightarrow> None
         | Some v \<Rightarrow> parse_digits (10 * acc + v) cs))"

definition parse_nat :: "string \<Rightarrow> nat option" where
  "parse_nat s =
     (case s of
        [] \<Rightarrow> None
      | c # cs \<Rightarrow> (case digit_val c of None \<Rightarrow> None | Some v \<Rightarrow> parse_digits v cs))"

definition py_int :: "string \<Rightarrow> int option" where
  "py_int s =
     (case strip s of
        [] \<Rightarrow> None
      | c # cs \<Rightarrow>
          if c = CHR ''-'' then map_option (\<lambda>n. - int n) (parse_nat cs)
          else if c = CHR ''+'' then map_option int (parse_nat cs)
          else map_option int (parse_nat (c # cs)))"

text \<open>\<^verbatim>\<open>str(n)\<close> for an integer: decimal digits, a leading minus sign when negative.\<close>

definition digit_char :: "nat \<Rightarrow> char" where
  "digit_char d = ''0123456789'' ! d"

function str_nat :: "nat \<Rightarrow> string" where
  "str_nat n = (if n < 10 then [digit_char n] else str_nat (n div 10) @ [digit_char (n mod 10)])"
  by pat_completeness auto
termination
  by (relation "measure id") auto

declare str_nat.simps [simp del]

definition py_str :: "int \<Rightarrow> string" where
  "py_str i = (if i < 0 then CHR ''-'' # str_nat (nat (- i)) else str_nat (nat i))"

section \<open>Files and directories\<close>

text \<open>
  A path is its list of components; \<^verbatim>\<open>dir / name\<close> appends one component. A node of
  the file system is a text file with the text \<^verbatim>\<open>read_text\<close> returns for it, some other
  file (an image, or bytes that do not decode), or a directory with the names of its
  entries in the order the operating system enumerates them. The state also keeps the
  log of \<^verbatim>\<open>write_text\<close> calls, so that "not rewritten" is more than "same content".
\<close>

type_synonym path = "string list"

datatype node = TextFile string | OtherFile | Dir "string list"

record fs =
  nodes :: "path \<rightharpoonup> node"
  writes :: "path list"

datatype error =
    FileNotFoundError path
  | IsADirectoryError path
  | UnicodeDecodeError path
  | MissingLabelsDir path
  | UnknownClassId path int
  | InvalidIntLiteral string
  | InvalidFloatLiteral string
  | UnpackError nat
  | IndexError
  | NoImageFound string path
  | NoLabelFiles path

definition read_text :: "fs \<Rightarrow> path \<Rightarrow> error + string" where
  "read_text s p =
     (case nodes s p of
        None \<Rightarrow> Inl (FileNotFoundError p)
      | Some (TextFile t) \<Rightarrow> Inr t
      | Some OtherFile \<Rightarrow> Inl (UnicodeDecodeError p)
      | Some (Dir _) \<Rightarrow> Inl (IsADirectoryError p))"

text \<open>
  \<^verbatim>\<open>path.write_text(t)\<close>; the remapper only writes a file it has just read, so the
  write replaces an existing text file and the directory listing stays as it is.
\<close>

definition write_text :: "fs \<Rightarrow> path \<Rightarrow> string \<Rightarrow> fs" where
  "write_text s p t = s\<lparr>nodes := (nodes s)(p \<mapsto> TextFile t), writes := writes s @ [p]\<rparr>"

definition is_dir :: "fs \<Rightarrow> path \<Rightarrow> bool" where
  "is_dir s p = (case nodes s p of Some (Dir _) \<Rightarrow> True | _ \<Rightarrow> False)"

definition exists_path :: "fs \<Rightarrow> path \<Rightarrow> bool" where
  "exists_path s p = (nodes s p \<noteq> None)"

definition has_suffix :: "string \<Rightarrow> string \<Rightarrow> bool" where
  "has_suffix suf name =
     (length suf \<le> length name \<and> drop (length name - length suf) name = suf)"

text \<open>
  \<^verbatim>\<open>dir.glob("*.txt")\<close>: the entries of the directory whose name ends in \<^verbatim>\<open>.txt\<close>, in
  enumeration order; nothing when \<open>dir\<close> is not a directory.
\<close>

definition glob_txt :: "fs \<Rightarrow> path \<Rightarrow> path list" where
  "glob_txt s d =
     (case nodes s d of
        Some (Dir names) \<Rightarrow> map (\<lambda>n. d @ [n]) (filter (has_suffix ''.txt'') names)
      | _ \<Rightarrow> [])"

section \<open>The label remapper (remap\_yolo\_labels.py)\<close>

text \<open>
  The body of the \<^verbatim>\<open>for line in lines\<close> loop of \<^verbatim>\<open>remap_file\<close>, with its two loop
  variables \<open>changed\<close> and \<open>new_lines\<close> passed along. A raise ends the loop with \<open>Inl\<close>.
\<close>

fun remap_lines ::
  "path \<Rightarrow> (int \<rightharpoonup> int) \<Rightarrow> string list \<Rightarrow> bool \<Rightarrow> string list \<Rightarrow> error + (bool \<times> string list)"
where
  "remap_lines path mapping [] changed new_lines = Inr (changed, new_lines)"
| "remap_lines path mapping (line # lines) changed new_lines =
     (if strip line = [] then remap_lines path mapping lines changed new_lines
      else
        (case py_split line of
           [] \<Rightarrow> Inl IndexError
         | tok # rest \<Rightarrow>
             (case py_int tok of
                None \<Rightarrow> Inl (InvalidIntLiteral tok)
              | Some src_id \<Rightarrow>
                  (case mapping src_id of
                     None \<Rightarrow> Inl (UnknownClassId path src_id)
                   | Some dst_id \<Rightarrow>
                       remap_lines path mapping lines
                         (changed \<or> dst_id \<noteq> src_id)
                         (new_lines @ [join '' '' (py_str dst_id # rest)])))))"

definition remap_file :: "fs \<Rightarrow> path \<Rightarrow> (int \<rightharpoonup> int) \<Rightarrow> (error + bool) \<times> fs" where
  "remap_file s path mapping =
     (case read_text s path of
        Inl e \<Rightarrow> (Inl e, s)
      | Inr text \<Rightarrow>
          (case remap_lines path mapping (splitlines (strip text)) False [] of
             Inl e \<Rightarrow> (Inl e, s)
           | Inr (changed, new_lines) \<Rightarrow>
               if changed
               then (Inr True, write_text s path (join ''\<newline>'' new_lines @ ''\<newline>''))
               else (Inr False, s)))"

text \<open>The \<^verbatim>\<open>for label_file in ...\<close> loop of \<^verbatim>\<open>remap_split\<close>, counting in \<open>changes\<close>.\<close>

fun remap_loop :: "fs \<Rightarrow> path list \<Rightarrow> (int \<rightharpoonup> int) \<Rightarrow> nat \<Rightarrow> (error + nat) \<times> fs" where
  "remap_loop s [] mapping changes = (Inr changes, s)"
| "remap_loop s (label_file # files) mapping changes =
     (case remap_file s label_file mapping of
        (Inl e, s') \<Rightarrow> (Inl e, s')
      | (Inr changed, s') \<Rightarrow>
          remap_loop s' files mapping (if changed then changes + 1 else changes))"

definition remap_split :: "fs \<Rightarrow> path \<Rightarrow> string \<Rightarrow> (int \<rightharpoonup> int) \<Rightarrow> (error + nat) \<times> fs" where
  "remap_split s base_dir split mapping =
     (let labels_dir = base_dir @ [split, ''labels''] in
      if \<not> is_dir s labels_dir then (Inl (MissingLabelsDir labels_dir), s)
      else remap_loop s (glob_txt s labels_dir) mapping 0)"

section \<open>The label previewer (preview\_labels.py)\<close>

text \<open>
  Coordinates are real numbers: the arithmetic of \<^verbatim>\<open>denorm_box\<close> is modelled exactly,
  without the rounding of binary floating point. \<^verbatim>\<open>float(token)\<close> is the interpreter's
  and is taken as a parameter \<open>to_float\<close>, \<open>None\<close> where it raises \<^verbatim>\<open>ValueError\<close>.
\<close>

type_synonym box = "int \<times> real \<times> real \<times> real \<times> real"

text \<open>
  The loop of \<^verbatim>\<open>parse_labels\<close>. The tuple assignment
  \<^verbatim>\<open>cls, cx, cy, w, h = line.split()\<close> raises unless there are exactly five tokens;
  the conversions then run from left to right.
\<close>

fun parse_lines :: "(string \<Rightarrow> real option) \<Rightarrow> string list \<Rightarrow> box list \<Rightarrow> error + box list" where
  "parse_lines to_float [] boxes = Inr boxes"
| "parse_lines to_float (line # lines) boxes =
     (if line = [] then parse_lines to_float lines boxes
      else
        (case py_split line of
           [cls, cx, cy, w, h] \<Rightarrow>
             (case py_int cls of
                None \<Rightarrow> Inl (InvalidIntLiteral cls)
              | Some c \<Rightarrow>
             (case to_float cx of
                None \<Rightarrow> Inl (InvalidFloatLiteral cx)
              | Some x \<Rightarrow>
             (case to_float cy of
                None \<Rightarrow> Inl (InvalidFloatLiteral cy)
              | Some y \<Rightarrow>
             (case to_float w of
                None \<Rightarrow> Inl (InvalidFloatLiteral w)
              | Some bw \<Rightarrow>
             (case to_float h of
                None \<Rightarrow> Inl (InvalidFloatLiteral h)
              | Some bh \<Rightarrow> parse_lines to_float lines (boxes @ [(c, x, y, bw, bh)]))))))
         | toks \<Rightarrow> Inl (UnpackError (length toks))))"

definition parse_labels :: "(string \<Rightarrow> real option) \<Rightarrow> fs \<Rightarrow> path \<Rightarrow> error + box list" where
  "parse_labels to_float s path =
     (case read_text s path of
        Inl e \<Rightarrow> Inl e
      | Inr text \<Rightarrow> parse_lines to_float (splitlines (strip text)) [])"

definition image_extensions :: "string list" where
  "image_extensions = [''.jpg'', ''.jpeg'', ''.png'']"

text \<open>The \<^verbatim>\<open>for ext in (...)\<close> loop of \<^verbatim>\<open>find_image\<close> and the raise after it.\<close>

fun find_image_from :: "fs \<Rightarrow> path \<Rightarrow> string \<Rightarrow> string list \<Rightarrow> error + path" where
  "find_image_from s images_dir stem [] = Inl (NoImageFound stem images_dir)"
| "find_image_from s images_dir stem (ext # exts) =
     (let candidate = images_dir @ [stem @ ext] in
      if exists_path s candidate then Inr candidate
      else find_image_from s images_dir stem exts)"

definition find_image :: "fs \<Rightarrow> path \<Rightarrow> string \<Rightarrow> error + path" where
  "find_image s images_dir stem = find_image_from s images_dir stem image_extensions"

definition denorm_box ::
  "real \<Rightarrow> real \<Rightarrow> real \<Rightarrow> real \<Rightarrow> int \<Rightarrow> int \<Rightarrow> real \<times> real \<times> real \<times> real" where
  "denorm_box cx cy w h width height =
     (let x0 = (cx - w / 2) * of_int width;
          y0 = (cy - h / 2) * of_int height;
          x1 = (cx + w / 2) * of_int width;
          y1 = (cy + h / 2) * of_int height
      in (max 0 x0, max 0 y0, min (of_int width) x1, min (of_int height) y1))"

definition DEFAULT_COLORS :: "string list" where
  "DEFAULT_COLORS = [''#00274C'', ''#FFCB05'', ''#9A3324'', ''#6DA34D'', ''#6F1D77'', ''#00A1DE'']"

text \<open>
  Subscripting a list, \<^verbatim>\<open>xs[i]\<close>: positions \<open>0 .. len - 1\<close> read from the front,
  positions \<open>-len .. -1\<close> read from the back (\<open>-1\<close> is the last entry), and
  every other position raises \<^verbatim>\<open>IndexError\<close>.
\<close>

definition py_index :: "'a list \<Rightarrow> int \<Rightarrow> error + 'a" where
  "py_index xs i =
     (if 0 \<le> i \<and> i < int (length xs) then Inr (xs ! nat i)
      else if i < 0 \<and> - int (length xs) \<le> i then Inr (xs ! nat (int (length xs) + i))
      else Inl IndexError)"

text \<open>
  Line 76 of \<^verbatim>\<open>draw_boxes\<close>:
  \<^verbatim>\<open>class_names[cls_id] if cls_id < len(class_names) else f"id_{cls_id}"\<close>.
\<close>

definition display_label :: "string list \<Rightarrow> int \<Rightarrow> error + string" where
  "display_label class_names cls_id =
     (if cls_id < int (length class_names) then py_index class_names cls_id
      else Inr (''id_'' @ py_str cls_id))"

text \<open>
  What \<^verbatim>\<open>draw_boxes\<close> asks of the drawing library, in order. The measurement of a
  rendered text (\<^verbatim>\<open>textbbox\<close>, or \<^verbatim>\<open>getsize\<close> on an old library) is the parameter
  \<open>text_size\<close>; decoding and saving the image are outside the model.
\<close>

datatype draw_cmd =
    Outline "real \<times> real \<times> real \<times> real" string nat
  | Filled "real \<times> real \<times> real \<times> real" string
  | DrawText "real \<times> real" string string

fun draw_loop ::
  "(string \<Rightarrow> real \<times> real) \<Rightarrow> int \<Rightarrow> int \<Rightarrow> string list \<Rightarrow> box list \<Rightarrow> draw_cmd list
     \<Rightarrow> error + draw_cmd list"
where
  "draw_loop text_size width height class_names [] drawn = Inr drawn"
| "draw_loop text_size width height class_names ((cls_id, cx, cy, w, h) # labels) drawn =
     (let color = DEFAULT_COLORS ! nat (cls_id mod int (length DEFAULT_COLORS));
          (x0, y0, x1, y1) = denorm_box cx cy w h width height
      in case display_label class_names cls_id of
           Inl e \<Rightarrow> Inl e
         | Inr label \<Rightarrow>
             (let (text_w, text_h) = text_size label
              in draw_loop text_size width height class_names labels
                   (drawn @
                    [Outline (x0, y0, x1, y1) color 3,
                     Filled (x0, y0 - text_h - 4, x0 + text_w + 6, y0) color,
                     DrawText (x0 + 3, y0 - text_h - 2) label ''white''])))"

definition draw_boxes ::
  "(string \<Rightarrow> real \<times> real) \<Rightarrow> int \<times> int \<Rightarrow> box list \<Rightarrow> string list \<Rightarrow> error + draw_cmd list"
where
  "draw_boxes text_size image_size labels class_names =
     draw_loop text_size (fst image_size) (snd image_size) class_names labels []"

text \<open>\<^verbatim>\<open>xs[:count]\<close>: a negative \<open>count\<close> drops that many entries from the end.\<close>

definition slice_to :: "'a list \<Rightarrow> int \<Rightarrow> 'a list" where
  "slice_to xs cnt =
     (if 0 \<le> cnt then take (nat cnt) xs else take (nat (int (length xs) + cnt)) xs)"

text \<open>
  \<^verbatim>\<open>pick_label_files\<close>. The process-wide random generator is the state \<open>g\<close>;
  \<^verbatim>\<open>random.shuffle\<close> is the library's and is the parameter \<open>shuffle\<close>, which returns
  the permuted list and the generator's next state. Paths are compared component by
  component, and components character by character.
\<close>

definition pick_label_files ::
  "('g \<Rightarrow> path list \<Rightarrow> path list \<times> 'g) \<Rightarrow> fs \<Rightarrow> path \<Rightarrow> int \<Rightarrow> bool \<Rightarrow> 'g \<Rightarrow> path list \<times> 'g"
where
  "pick_label_files shuffle s labels_dir cnt randomize g =
     (let files = sort (glob_txt s labels_dir);
          (files', g') = (if randomize then shuffle g files else (files, g))
      in (slice_to files' cnt, g'))"

text \<open>
  Lines 131-138 of \<^verbatim>\<open>main\<close>: seed the generator (\<^verbatim>\<open>random.seed\<close>, the parameter
  \<open>seed_rng\<close>), whatever state \<open>g0\<close> it was in, select, and stop when nothing was
  selected.
\<close>

definition main_select ::
  "(int \<Rightarrow> 'g) \<Rightarrow> ('g \<Rightarrow> path list \<Rightarrow> path list \<times> 'g) \<Rightarrow> fs \<Rightarrow> path \<Rightarrow> string \<Rightarrow> int \<Rightarrow> bool
     \<Rightarrow> int \<Rightarrow> 'g \<Rightarrow> (error + path list) \<times> 'g"
where
  "main_select seed_rng shuffle s base_dir split cnt randomize seed g0 =
     (let g = seed_rng seed;
          labels_dir = base_dir @ [split, ''labels''];
          (selected, g') = pick_label_files shuffle s labels_dir cnt randomize g
      in if selected = [] then (Inl (NoLabelFiles labels_dir), g') else (Inr selected, g'))"

section \<open>Notions used in the statements\<close>

text \<open>A token of a line: a non-empty run of characters none of which is whitespace.\<close>

definition is_token :: "string \<Rightarrow> bool" where
  "is_token t \<longleftrightarrow> t \<noteq> [] \<and> (\<forall>c\<in>set t. \<not> is_space c)"

text \<open>A line as the remapper writes it: not empty, no whitespace at either end, no line break inside.\<close>

definition clean_line :: "string \<Rightarrow> bool" where
  "clean_line l \<longleftrightarrow>
     l \<noteq> [] \<and> \<not> is_space (hd l) \<and> \<not> is_space (last l) \<and> (\<forall>c\<in>set l. \<not> is_linebreak c)"

text \<open>A string made of decimal digits only.\<close>

definition all_digits :: "string \<Rightarrow> bool" where
  "all_digits ds \<longleftrightarrow> (\<forall>c\<in>set ds. \<exists>d<10. c = digit_char d)"

text \<open>The lines of a label file that the remapper works on: those that are not blank.\<close>

definition label_lines :: "string \<Rightarrow> string list" where
  "label_lines text = filter (\<lambda>l. strip l \<noteq> []) (splitlines (strip text))"

text \<open>The class id of a line: its first token read as an integer, where it is one.\<close>

definition line_id :: "string \<Rightarrow> int option" where
  "line_id l = (case py_split l of [] \<Rightarrow> None | tok # _ \<Rightarrow> py_int tok)"

text \<open>The records of a label file: the token list of every line that is not blank.\<close>

definition label_records :: "string \<Rightarrow> string list list" where
  "label_records text = map py_split (label_lines text)"

text \<open>A record and its remapped version: the first token of the old record is an integer with a
  destination in the mapping, the first token of the new record reads as that destination,
  and all further tokens are the same.\<close>

definition remapped :: "(int \<rightharpoonup> int) \<Rightarrow> string list \<Rightarrow> string list \<Rightarrow> bool" where
  "remapped mapping old new =
     (case (old, new) of
        (tok # rest, tok' # rest') \<Rightarrow>
          rest' = rest \<and>
          (case py_int tok of
             None \<Rightarrow> False
           | Some k \<Rightarrow> (case mapping k of None \<Rightarrow> False | Some d \<Rightarrow> py_int tok' = Some d))
      | _ \<Rightarrow> False)"

text \<open>The line the loop body of \<^verbatim>\<open>remap_file\<close> appends for a line whose id has a destination.\<close>

definition rewrite_line :: "(int \<rightharpoonup> int) \<Rightarrow> string \<Rightarrow> string" where
  "rewrite_line mapping l =
     (case py_split l of
        [] \<Rightarrow> []
      | tok # rest \<Rightarrow>
          (case py_int tok of
             None \<Rightarrow> []
           | Some k \<Rightarrow> (case mapping k of None \<Rightarrow> [] | Some d \<Rightarrow> join '' '' (py_str d # rest))))"

text \<open>The line carries an id that the mapping sends to a different id.\<close>

definition moves_id :: "(int \<rightharpoonup> int) \<Rightarrow> string \<Rightarrow> bool" where
  "moves_id mapping l = (case line_id l of None \<Rightarrow> False | Some k \<Rightarrow> mapping k \<noteq> Some k)"

text \<open>
  Three small splits used to evaluate the remapper: one label file with class 2, one
  label file with class 0, and three label files of which the second carries class 5.
\<close>

definition split_A :: fs where
  "split_A =
     \<lparr>nodes = [[''data'', ''training'', ''labels''] \<mapsto> Dir [''p1.txt''],
               [''data'', ''training'', ''labels'', ''p1.txt''] \<mapsto> TextFile ''2 0.5 0.5 0.2 0.2''],
      writes = []\<rparr>"

definition split_B :: fs where
  "split_B =
     \<lparr>nodes = [[''data'', ''training'', ''labels''] \<mapsto> Dir [''p1.txt''],
               [''data'', ''training'', ''labels'', ''p1.txt''] \<mapsto> TextFile ''0 0.5 0.5 0.2 0.2''],
      writes = []\<rparr>"

definition split_C :: fs where
  "split_C =
     \<lparr>nodes = [[''data'', ''training'', ''labels''] \<mapsto> Dir [''a.txt'', ''b.txt'', ''c.txt''],
               [''data'', ''training'', ''labels'', ''a.txt''] \<mapsto> TextFile ''2 0.5 0.5 0.2 0.2\<newline>'',
               [''data'', ''training'', ''labels'', ''b.txt''] \<mapsto> TextFile ''5 0.1 0.1 0.1 0.1\<newline>'',
               [''data'', ''training'', ''labels'', ''c.txt''] \<mapsto> TextFile ''1 0.3 0.3 0.1 0.1\<newline>''],
      writes = []\<rparr>"

section \<open>Properties of the text primitives\<close>

subsection \<open>Characters\<close>

lemma linebreak_is_space: "is_linebreak c \<Longrightarrow> is_space c"
  by (auto simp: is_linebreak_def is_space_def linebreak_chars_def whitespace_chars_def)

lemma space_char_facts [simp]:
  "is_space CHR '' ''" "\<not> is_linebreak CHR '' ''"
  "is_space CHR ''\<newline>''" "is_linebreak CHR ''\<newline>''" "CHR ''\<newline>'' \<noteq> CHR 0x0D"
  by (simp_all add: is_linebreak_def is_space_def linebreak_chars_def whitespace_chars_def)

lemma digit_table:
  "\<forall>d\<in>set [0 ..< 10]. digit_val (digit_char d) = Some d \<and> \<not> is_space (digit_char d)
     \<and> digit_char d \<noteq> CHR ''_'' \<and> digit_char d \<noteq> CHR ''-'' \<and> digit_char d \<noteq> CHR ''+''"
  by code_simp

lemma digit_val_digit_char: "d < 10 \<Longrightarrow> digit_val (digit_char d) = Some d"
  using digit_table by simp

lemma digit_char_plain:
  "d < 10 \<Longrightarrow> \<not> is_space (digit_char d) \<and> digit_char d \<noteq> CHR ''_''
     \<and> digit_char d \<noteq> CHR ''-'' \<and> digit_char d \<noteq> CHR ''+''"
  using digit_table by simp

subsection \<open>strip\<close>

lemma all_dropWhile_iff: "(\<forall>x\<in>set (dropWhile P s). P x) \<longleftrightarrow> (\<forall>x\<in>set s. P x)"
proof
  assume all: "\<forall>x\<in>set (dropWhile P s). P x"
  have "dropWhile P s = []"
  proof (rule ccontr)
    assume ne: "dropWhile P s \<noteq> []"
    then have "\<not> P (hd (dropWhile P s))" by (rule hd_dropWhile)
    moreover from ne have "hd (dropWhile P s) \<in> set (dropWhile P s)" by simp
    ultimately show False using all by blast
  qed
  then show "\<forall>x\<in>set s. P x"
    by (simp only: dropWhile_eq_Nil_conv)
next
  assume "\<forall>x\<in>set s. P x"
  then show "\<forall>x\<in>set (dropWhile P s). P x"
    by (meson set_dropWhileD)
qed

lemma strip_empty_iff: "strip s = [] \<longleftrightarrow> (\<forall>c\<in>set s. is_space c)"
proof -
  have "strip s = [] \<longleftrightarrow> dropWhile is_space (rev (dropWhile is_space s)) = []"
    by (simp add: strip_def)
  also have "\<dots> \<longleftrightarrow> (\<forall>x\<in>set (dropWhile is_space s). is_space x)"
    by (simp only: dropWhile_eq_Nil_conv set_rev)
  also have "\<dots> \<longleftrightarrow> (\<forall>c\<in>set s. is_space c)"
    by (rule all_dropWhile_iff)
  finally show ?thesis .
qed

lemma strip_id:
  assumes "s \<noteq> []" and "\<not> is_space (hd s)" and "\<not> is_space (last s)"
  shows "strip s = s"
proof -
  from assms(1,2) have a: "dropWhile is_space s = s"
    by (cases s) simp_all
  from assms(1,3) have "dropWhile is_space (rev s) = rev s"
    by (cases "rev s") (simp_all add: hd_rev)
  with a show ?thesis by (simp add: strip_def)
qed

lemma strip_trailing_newline:
  assumes "s \<noteq> []" and "\<not> is_space (hd s)" and "\<not> is_space (last s)"
  shows "strip (s @ ''\<newline>'') = s"
proof -
  from assms(1,2) have a: "dropWhile is_space (s @ ''\<newline>'') = s @ ''\<newline>''"
    by (cases s) simp_all
  from assms(1,3) have "dropWhile is_space (rev s) = rev s"
    by (cases "rev s") (simp_all add: hd_rev)
  with a show ?thesis by (simp add: strip_def)
qed

subsection \<open>split\<close>

lemma split_from_run:
  "\<forall>c\<in>set t. \<not> is_space c \<Longrightarrow> split_from cur (t @ rest) = split_from (rev t @ cur) rest"
  by (induction t arbitrary: cur) simp_all

lemma split_from_tokens:
  "\<forall>c\<in>set cur. \<not> is_space c \<Longrightarrow> t \<in> set (split_from cur s) \<Longrightarrow> is_token t"
proof (induction s arbitrary: cur)
  case Nil
  then show ?case
    by (cases "cur = []") (simp_all add: is_token_def)
next
  case (Cons c cs)
  show ?case
  proof (cases "is_space c")
    case False
    with Cons.prems have "\<forall>x\<in>set (c # cur). \<not> is_space x" and "t \<in> set (split_from (c # cur) cs)"
      by simp_all
    then show ?thesis by (rule Cons.IH)
  next
    case True
    have nil: "\<forall>x\<in>set ([]::string). \<not> is_space x" by simp
    show ?thesis
    proof (cases "cur = []")
      case True
      with \<open>is_space c\<close> Cons.prems have "t \<in> set (split_from [] cs)" by simp
      with nil show ?thesis by (rule Cons.IH)
    next
      case False
      with \<open>is_space c\<close> Cons.prems have "t = rev cur \<or> t \<in> set (split_from [] cs)" by simp
      then show ?thesis
      proof
        assume "t = rev cur"
        with False Cons.prems(1) show ?thesis by (simp add: is_token_def)
      next
        assume "t \<in> set (split_from [] cs)"
        with nil show ?thesis by (rule Cons.IH)
      qed
    qed
  qed
qed

lemma py_split_tokens: "t \<in> set (py_split s) \<Longrightarrow> is_token t"
  using split_from_tokens [of "[]" t s] by (simp add: py_split_def)

lemma split_from_empty_iff:
  "split_from cur s = [] \<longleftrightarrow> cur = [] \<and> (\<forall>c\<in>set s. is_space c)"
  by (induction s arbitrary: cur) auto

lemma py_split_empty_iff: "py_split s = [] \<longleftrightarrow> strip s = []"
  by (simp add: py_split_def split_from_empty_iff strip_empty_iff)

lemma py_split_join:
  "\<forall>t\<in>set parts. is_token t \<Longrightarrow> py_split (join '' '' parts) = parts"
proof (induction "'' ''" parts rule: join.induct)
  case 1
  then show ?case by (simp add: py_split_def)
next
  case (2 p)
  then have "split_from [] (p @ []) = split_from (rev p @ []) []"
    by (intro split_from_run) (simp add: is_token_def)
  with 2 show ?case by (simp add: py_split_def is_token_def)
next
  case (3 p q ps)
  then have p: "p \<noteq> []" "\<forall>c\<in>set p. \<not> is_space c"
    by (simp_all add: is_token_def)
  have "split_from [] (p @ '' '' @ join '' '' (q # ps))
      = split_from (rev p @ []) ('' '' @ join '' '' (q # ps))"
    using p(2) by (rule split_from_run)
  also have "\<dots> = p # split_from [] (join '' '' (q # ps))"
    using p(1) by simp
  finally show ?case
    using 3 by (simp add: py_split_def)
qed

subsection \<open>join\<close>

lemma join_nonempty: "parts \<noteq> [] \<Longrightarrow> \<forall>t\<in>set parts. t \<noteq> [] \<Longrightarrow> join sep parts \<noteq> []"
  by (induction sep parts rule: join.induct) simp_all

lemma hd_join: "parts \<noteq> [] \<Longrightarrow> hd parts \<noteq> [] \<Longrightarrow> hd (join sep parts) = hd (hd parts)"
  by (induction sep parts rule: join.induct) simp_all

lemma last_join:
  "parts \<noteq> [] \<Longrightarrow> \<forall>t\<in>set parts. t \<noteq> [] \<Longrightarrow> last (join sep parts) = last (last parts)"
proof (induction sep parts rule: join.induct)
  case (3 sep p q ps)
  then have "join sep (q # ps) \<noteq> []"
    by (intro join_nonempty) simp_all
  with 3 show ?case by simp
qed simp_all

lemma set_join_subset: "set (join sep parts) \<subseteq> set sep \<union> \<Union> (set ` set parts)"
  by (induction sep parts rule: join.induct) auto

subsection \<open>Lines written by the remapper\<close>

lemma clean_line_join:
  assumes "parts \<noteq> []" and "\<forall>t\<in>set parts. is_token t"
  shows "clean_line (join '' '' parts)"
proof -
  from assms(2) have ne: "\<forall>t\<in>set parts. t \<noteq> []"
    by (simp add: is_token_def)
  from assms(1) have h: "hd parts \<in> set parts" and l: "last parts \<in> set parts"
    by simp_all
  have 1: "join '' '' parts \<noteq> []"
    using assms(1) ne by (rule join_nonempty)
  have "hd (join '' '' parts) = hd (hd parts)"
    using assms(1) h ne by (intro hd_join) simp_all
  moreover have "hd (hd parts) \<in> set (hd parts)"
    using h ne by simp
  ultimately have 2: "\<not> is_space (hd (join '' '' parts))"
    using h assms(2) by (simp add: is_token_def)
  have "last (join '' '' parts) = last (last parts)"
    using assms(1) ne by (rule last_join)
  moreover have "last (last parts) \<in> set (last parts)"
    using l ne by simp
  ultimately have 3: "\<not> is_space (last (join '' '' parts))"
    using l assms(2) by (simp add: is_token_def)
  have 4: "\<forall>c\<in>set (join '' '' parts). \<not> is_linebreak c"
  proof
    fix c assume "c \<in> set (join '' '' parts)"
    with set_join_subset [of "'' ''" parts]
    have "c = CHR '' '' \<or> (\<exists>t\<in>set parts. c \<in> set t)" by auto
    then show "\<not> is_linebreak c"
    proof
      assume "c = CHR '' ''" then show ?thesis by simp
    next
      assume "\<exists>t\<in>set parts. c \<in> set t"
      with assms(2) have "\<not> is_space c" by (auto simp: is_token_def)
      then show ?thesis using linebreak_is_space by blast
    qed
  qed
  from 1 2 3 4 show ?thesis by (simp add: clean_line_def)
qed

lemma clean_line_not_blank: "clean_line l \<Longrightarrow> strip l \<noteq> []"
  by (metis clean_line_def strip_id)

subsection \<open>splitlines\<close>

lemma splitlines_from_char:
  "\<not> is_linebreak c \<Longrightarrow> splitlines_from cur (c # cs) = splitlines_from (c # cur) cs"
proof (cases cs)
  case Nil
  then show "\<not> is_linebreak c \<Longrightarrow> ?thesis" by simp
next
  case (Cons d ds)
  assume "\<not> is_linebreak c"
  moreover from this have "c \<noteq> CHR 0x0D"
    by (auto simp: is_linebreak_def linebreak_chars_def)
  ultimately show ?thesis using Cons by simp
qed

lemma splitlines_from_run:
  "\<forall>c\<in>set l. \<not> is_linebreak c \<Longrightarrow> splitlines_from cur (l @ rest) = splitlines_from (rev l @ cur) rest"
  by (induction l arbitrary: cur) (simp_all add: splitlines_from_char)

lemma splitlines_from_newline:
  "splitlines_from cur (CHR ''\<newline>'' # rest) = rev cur # splitlines_from [] rest"
  by (cases rest) simp_all

lemma splitlines_join:
  assumes "\<forall>l\<in>set ls. l \<noteq> [] \<and> (\<forall>c\<in>set l. \<not> is_linebreak c)"
  shows "splitlines (join ''\<newline>'' ls) = ls"
  using assms
proof (induction "''\<newline>''" ls rule: join.induct)
  case 1
  then show ?case by (simp add: splitlines_def)
next
  case (2 l)
  then have "splitlines_from [] (l @ []) = splitlines_from (rev l @ []) []"
    by (intro splitlines_from_run) simp
  with 2 show ?case by (simp add: splitlines_def)
next
  case (3 l m ls)
  then have "splitlines_from [] (l @ ''\<newline>'' @ join ''\<newline>'' (m # ls))
      = splitlines_from (rev l @ []) (''\<newline>'' @ join ''\<newline>'' (m # ls))"
    by (intro splitlines_from_run) simp
  also have "\<dots> = l # splitlines_from [] (join ''\<newline>'' (m # ls))"
    by (simp add: splitlines_from_newline)
  finally show ?case
    using 3 by (simp add: splitlines_def)
qed

lemma read_back_lines:
  assumes "ls \<noteq> []" and "\<forall>l\<in>set ls. clean_line l"
  shows "splitlines (strip (join ''\<newline>'' ls @ ''\<newline>'')) = ls"
    and "filter (\<lambda>l. strip l \<noteq> []) (splitlines (strip (join ''\<newline>'' ls @ ''\<newline>''))) = ls"
proof -
  from assms(2) have ne: "\<forall>l\<in>set ls. l \<noteq> []"
    by (simp add: clean_line_def)
  from assms(1) have h: "hd ls \<in> set ls" and l: "last ls \<in> set ls"
    by simp_all
  have 1: "join ''\<newline>'' ls \<noteq> []"
    using assms(1) ne by (rule join_nonempty)
  have "hd (join ''\<newline>'' ls) = hd (hd ls)"
    using assms(1) h ne by (intro hd_join) simp_all
  then have 2: "\<not> is_space (hd (join ''\<newline>'' ls))"
    using h assms(2) by (simp add: clean_line_def)
  have "last (join ''\<newline>'' ls) = last (last ls)"
    using assms(1) ne by (rule last_join)
  then have 3: "\<not> is_space (last (join ''\<newline>'' ls))"
    using l assms(2) by (simp add: clean_line_def)
  have "strip (join ''\<newline>'' ls @ ''\<newline>'') = join ''\<newline>'' ls"
    using 1 2 3 by (rule strip_trailing_newline)
  moreover have "splitlines (join ''\<newline>'' ls) = ls"
    using assms(2) by (intro splitlines_join) (simp add: clean_line_def)
  ultimately show a: "splitlines (strip (join ''\<newline>'' ls @ ''\<newline>'')) = ls"
    by simp
  have "filter (\<lambda>l. strip l \<noteq> []) ls = ls"
    using assms(2) by (simp add: clean_line_not_blank)
  with a show "filter (\<lambda>l. strip l \<noteq> []) (splitlines (strip (join ''\<newline>'' ls @ ''\<newline>''))) = ls"
    by simp
qed

subsection \<open>Integers written and read back\<close>

lemma str_nat_small: "n < 10 \<Longrightarrow> str_nat n = [digit_char n]"
  by (subst str_nat.simps) simp

lemma str_nat_large: "\<not> n < 10 \<Longrightarrow> str_nat n = str_nat (n div 10) @ [digit_char (n mod 10)]"
  by (subst str_nat.simps) simp

lemma str_nat_digits: "all_digits (str_nat n) \<and> str_nat n \<noteq> []"
proof (induction n rule: str_nat.induct)
  case (1 n)
  show ?case
  proof (cases "n < 10")
    case True
    then show ?thesis
      by (auto simp: str_nat_small all_digits_def)
  next
    case False
    have "n mod 10 < 10" by simp
    then have "\<exists>d<10. digit_char (n mod 10) = digit_char d" by blast
    with False 1 show ?thesis
      unfolding str_nat_large [OF False] all_digits_def by auto
  qed
qed

lemma parse_digits_snoc:
  assumes "all_digits ds" and "d < 10"
  shows "parse_digits acc (ds @ [digit_char d]) = map_option (\<lambda>a. 10 * a + d) (parse_digits acc ds)"
  using assms(1)
proof (induction ds arbitrary: acc)
  case Nil
  then show ?case
    using assms(2) by (simp add: digit_val_digit_char digit_char_plain)
next
  case (Cons c cs)
  then obtain v where v: "v < 10" "c = digit_char v"
    by (auto simp: all_digits_def)
  from Cons.prems have "all_digits cs"
    by (simp add: all_digits_def)
  then have "parse_digits (10 * acc + v) (cs @ [digit_char d])
      = map_option (\<lambda>a. 10 * a + d) (parse_digits (10 * acc + v) cs)"
    by (rule Cons.IH)
  with v show ?case
    by (simp add: digit_val_digit_char digit_char_plain)
qed

lemma parse_nat_snoc:
  assumes "all_digits ds" and "ds \<noteq> []" and "d < 10"
  shows "parse_nat (ds @ [digit_char d]) = map_option (\<lambda>a. 10 * a + d) (parse_nat ds)"
proof -
  from assms(2) obtain c cs where ds: "ds = c # cs" by (cases ds) auto
  with assms(1) obtain v where v: "v < 10" "c = digit_char v" and cs: "all_digits cs"
    by (auto simp: all_digits_def)
  from cs assms(3) have "parse_digits v (cs @ [digit_char d])
      = map_option (\<lambda>a. 10 * a + d) (parse_digits v cs)"
    by (rule parse_digits_snoc)
  with ds v show ?thesis
    by (simp add: parse_nat_def digit_val_digit_char)
qed

lemma parse_nat_str_nat: "parse_nat (str_nat n) = Some n"
proof (induction n rule: str_nat.induct)
  case (1 n)
  show ?case
  proof (cases "n < 10")
    case True
    then show ?thesis
      by (simp add: str_nat_small parse_nat_def digit_val_digit_char)
  next
    case False
    have d: "n mod 10 < 10" by simp
    have "parse_nat (str_nat (n div 10) @ [digit_char (n mod 10)])
        = map_option (\<lambda>a. 10 * a + n mod 10) (parse_nat (str_nat (n div 10)))"
      using str_nat_digits [of "n div 10"] d by (intro parse_nat_snoc) simp_all
    also have "\<dots> = Some n"
      using False 1 by simp
    finally show ?thesis
      using False by (simp add: str_nat_large)
  qed
qed

lemma str_nat_no_space: "c \<in> set (str_nat n) \<Longrightarrow> \<not> is_space c"
  using str_nat_digits [of n] digit_char_plain by (auto simp: all_digits_def)

lemma str_nat_hd: "hd (str_nat n) \<noteq> CHR ''-'' \<and> hd (str_nat n) \<noteq> CHR ''+''"
proof -
  have "hd (str_nat n) \<in> set (str_nat n)"
    using str_nat_digits [of n] by simp
  with str_nat_digits [of n] have "\<exists>d<10. hd (str_nat n) = digit_char d"
    unfolding all_digits_def by blast
  then obtain d where "d < 10" "hd (str_nat n) = digit_char d"
    by blast
  then show ?thesis by (simp add: digit_char_plain)
qed

lemma minus_not_space: "\<not> is_space CHR ''-''"
  by (simp add: is_space_def whitespace_chars_def)

lemma py_str_token: "is_token (py_str i)"
proof (cases "i < 0")
  case True
  then show ?thesis
    using str_nat_no_space [of _ "nat (- i)"]
    by (auto simp: py_str_def is_token_def minus_not_space)
next
  case False
  then show ?thesis
    using str_nat_digits [of "nat i"] str_nat_no_space [of _ "nat i"]
    by (auto simp: py_str_def is_token_def)
qed

lemma strip_token: "is_token t \<Longrightarrow> strip t = t"
  by (rule strip_id) (simp_all add: is_token_def)

lemma py_int_py_str: "py_int (py_str i) = Some i"
proof (cases "i < 0")
  case True
  have "strip (py_str i) = py_str i"
    using py_str_token by (rule strip_token)
  with True show ?thesis
    by (simp add: py_int_def py_str_def parse_nat_str_nat)
next
  case False
  have s: "strip (py_str i) = py_str i"
    using py_str_token by (rule strip_token)
  from False have p: "py_str i = str_nat (nat i)"
    by (simp add: py_str_def)
  obtain c cs where cs: "str_nat (nat i) = c # cs"
    using str_nat_digits [of "nat i"] by (cases "str_nat (nat i)") auto
  then have "c \<noteq> CHR ''-''" "c \<noteq> CHR ''+''"
    using str_nat_hd [of "nat i"] by simp_all
  moreover have "parse_nat (c # cs) = Some (nat i)"
    using parse_nat_str_nat [of "nat i"] cs by simp
  ultimately show ?thesis
    using False s p cs by (simp add: py_int_def)
qed

section \<open>Properties of the remapper\<close>

lemma line_id_split:
  assumes "strip l \<noteq> []" and "line_id l = Some k"
  obtains tok rest where "py_split l = tok # rest" and "py_int tok = Some k"
  using assms by (auto simp: line_id_def split: list.splits)

lemma remap_lines_unknown:
  assumes "\<forall>l\<in>set lines. strip l \<noteq> [] \<longrightarrow> line_id l \<noteq> None"
    and "\<exists>l\<in>set lines. strip l \<noteq> [] \<and> (\<exists>k. line_id l = Some k \<and> mapping k = None)"
  shows "\<exists>k. remap_lines path mapping lines changed new_lines = Inl (UnknownClassId path k)
           \<and> mapping k = None \<and> (\<exists>l\<in>set lines. strip l \<noteq> [] \<and> line_id l = Some k)"
  using assms
proof (induction lines arbitrary: changed new_lines)
  case Nil
  then show ?case by simp
next
  case (Cons l ls)
  show ?case
  proof (cases "strip l = []")
    case True
    with Cons.prems have "\<forall>l\<in>set ls. strip l \<noteq> [] \<longrightarrow> line_id l \<noteq> None"
      and "\<exists>l\<in>set ls. strip l \<noteq> [] \<and> (\<exists>k. line_id l = Some k \<and> mapping k = None)"
      by auto
    from Cons.IH [OF this, of changed new_lines] True show ?thesis by auto
  next
    case False
    with Cons.prems(1) obtain k where k: "line_id l = Some k" by auto
    with False obtain tok rest where sp: "py_split l = tok # rest" "py_int tok = Some k"
      by (rule line_id_split)
    show ?thesis
    proof (cases "mapping k")
      case None
      with False sp k show ?thesis by auto
    next
      case (Some d)
      with k Cons.prems have "\<forall>l\<in>set ls. strip l \<noteq> [] \<longrightarrow> line_id l \<noteq> None"
        and "\<exists>l\<in>set ls. strip l \<noteq> [] \<and> (\<exists>k. line_id l = Some k \<and> mapping k = None)"
        by auto
      from Cons.IH [OF this, of "changed \<or> d \<noteq> k" "new_lines @ [join '' '' (py_str d # rest)]"]
        False sp Some show ?thesis by auto
    qed
  qed
qed

lemma remap_lines_known:
  assumes "\<forall>l\<in>set lines. strip l \<noteq> [] \<longrightarrow> (\<exists>k. line_id l = Some k \<and> mapping k \<noteq> None)"
  shows "remap_lines path mapping lines changed new_lines =
           Inr (changed \<or> (\<exists>l\<in>set lines. strip l \<noteq> [] \<and> moves_id mapping l),
                new_lines @ map (rewrite_line mapping) (filter (\<lambda>l. strip l \<noteq> []) lines))"
  using assms
proof (induction lines arbitrary: changed new_lines)
  case Nil
  then show ?case by simp
next
  case (Cons l ls)
  from Cons.prems have rest: "\<forall>l\<in>set ls. strip l \<noteq> [] \<longrightarrow> (\<exists>k. line_id l = Some k \<and> mapping k \<noteq> None)"
    by simp
  show ?case
  proof (cases "strip l = []")
    case True
    with Cons.IH [OF rest, of changed new_lines] show ?thesis by simp
  next
    case False
    with Cons.prems obtain k d where k: "line_id l = Some k" "mapping k = Some d" by auto
    with False obtain tok rest' where sp: "py_split l = tok # rest'" "py_int tok = Some k"
      by (auto elim: line_id_split)
    have rw: "rewrite_line mapping l = join '' '' (py_str d # rest')"
      using sp k by (simp add: rewrite_line_def)
    have mv: "moves_id mapping l \<longleftrightarrow> d \<noteq> k"
      using k by (auto simp: moves_id_def)
    from Cons.IH [OF rest, of "changed \<or> d \<noteq> k" "new_lines @ [join '' '' (py_str d # rest')]"]
    show ?thesis
      using False sp k rw mv by auto
  qed
qed

lemma remap_lines_success:
  assumes "remap_lines path mapping lines changed new_lines = Inr r"
  shows "\<forall>l\<in>set lines. strip l \<noteq> [] \<longrightarrow> (\<exists>k. line_id l = Some k \<and> mapping k \<noteq> None)"
  using assms
proof (induction lines arbitrary: changed new_lines)
  case Nil
  then show ?case by simp
next
  case (Cons l ls)
  show ?case
  proof (cases "strip l = []")
    case True
    with Cons show ?thesis by auto
  next
    case False
    then have "py_split l \<noteq> []" by (simp add: py_split_empty_iff)
    then obtain tok rest where sp: "py_split l = tok # rest" by (cases "py_split l") auto
    with False Cons.prems obtain k where k: "py_int tok = Some k"
      by (cases "py_int tok") auto
    with False sp Cons.prems obtain d where d: "mapping k = Some d"
      by (cases "mapping k") auto
    from False sp k d Cons.prems
    have "remap_lines path mapping ls (changed \<or> d \<noteq> k) (new_lines @ [join '' '' (py_str d # rest)]) = Inr r"
      by simp
    then have "\<forall>l\<in>set ls. strip l \<noteq> [] \<longrightarrow> (\<exists>k. line_id l = Some k \<and> mapping k \<noteq> None)"
      by (rule Cons.IH)
    moreover have "line_id l = Some k" using sp k by (simp add: line_id_def)
    ultimately show ?thesis using d by auto
  qed
qed

lemma label_lines_not_blank: "l \<in> set (label_lines text) \<Longrightarrow> strip l \<noteq> []"
  by (simp add: label_lines_def)

lemma rewrite_line_known:
  assumes "strip l \<noteq> []" and "line_id l = Some k" and "mapping k = Some d"
  shows "clean_line (rewrite_line mapping l)"
    and "remapped mapping (py_split l) (py_split (rewrite_line mapping l))"
proof -
  from assms(1,2) obtain tok rest where sp: "py_split l = tok # rest" "py_int tok = Some k"
    by (rule line_id_split)
  then have rw: "rewrite_line mapping l = join '' '' (py_str d # rest)"
    using assms(3) by (simp add: rewrite_line_def)
  have "\<forall>t\<in>set rest. is_token t"
    using sp(1) py_split_tokens [of _ l] by simp
  then have toks: "\<forall>t\<in>set (py_str d # rest). is_token t"
    by (simp add: py_str_token)
  then show "clean_line (rewrite_line mapping l)"
    unfolding rw by (intro clean_line_join) simp_all
  from toks have "py_split (join '' '' (py_str d # rest)) = py_str d # rest"
    by (rule py_split_join)
  then show "remapped mapping (py_split l) (py_split (rewrite_line mapping l))"
    using sp assms(3) by (simp add: rw remapped_def py_int_py_str)
qed

lemma remap_file_known:
  assumes "read_text s path = Inr text"
    and "\<forall>l\<in>set (label_lines text). \<exists>k. line_id l = Some k \<and> mapping k \<noteq> None"
  shows "remap_file s path mapping =
     (if \<exists>l\<in>set (label_lines text). moves_id mapping l
      then (Inr True,
            write_text s path (join ''\<newline>'' (map (rewrite_line mapping) (label_lines text)) @ ''\<newline>''))
      else (Inr False, s))"
proof -
  from assms(2) have "\<forall>l\<in>set (splitlines (strip text)). strip l \<noteq> []
      \<longrightarrow> (\<exists>k. line_id l = Some k \<and> mapping k \<noteq> None)"
    by (simp add: label_lines_def)
  then have "remap_lines path mapping (splitlines (strip text)) False [] =
      Inr (False \<or> (\<exists>l\<in>set (splitlines (strip text)). strip l \<noteq> [] \<and> moves_id mapping l),
           [] @ map (rewrite_line mapping) (filter (\<lambda>l. strip l \<noteq> []) (splitlines (strip text))))"
    by (rule remap_lines_known)
  moreover have "(\<exists>l\<in>set (splitlines (strip text)). strip l \<noteq> [] \<and> moves_id mapping l)
      \<longleftrightarrow> (\<exists>l\<in>set (label_lines text). moves_id mapping l)"
    by (auto simp: label_lines_def)
  ultimately show ?thesis
    using assms(1) by (simp add: remap_file_def label_lines_def)
qed

lemma rewritten_text_records:
  assumes "\<forall>l\<in>set (label_lines text). \<exists>k. line_id l = Some k \<and> mapping k \<noteq> None"
    and "label_lines text \<noteq> []"
  shows "list_all2 (remapped mapping) (label_records text)
           (label_records (join ''\<newline>'' (map (rewrite_line mapping) (label_lines text)) @ ''\<newline>''))"
proof -
  let ?new = "map (rewrite_line mapping) (label_lines text)"
  have each: "clean_line (rewrite_line mapping l)
      \<and> remapped mapping (py_split l) (py_split (rewrite_line mapping l))"
    if "l \<in> set (label_lines text)" for l
  proof -
    from that have "strip l \<noteq> []" by (rule label_lines_not_blank)
    moreover from that assms(1) obtain k d where "line_id l = Some k" "mapping k = Some d"
      by auto
    ultimately show ?thesis
      using rewrite_line_known by blast
  qed
  have "?new \<noteq> []" using assms(2) by simp
  moreover have "\<forall>l\<in>set ?new. clean_line l" using each by auto
  ultimately have "filter (\<lambda>l. strip l \<noteq> []) (splitlines (strip (join ''\<newline>'' ?new @ ''\<newline>''))) = ?new"
    by (rule read_back_lines(2))
  then have "label_records (join ''\<newline>'' ?new @ ''\<newline>'') = map py_split ?new"
    by (simp add: label_records_def label_lines_def)
  moreover have "list_all2 (remapped mapping) (map py_split (label_lines text)) (map py_split ?new)"
    using each by (simp add: list_all2_conv_all_nth)
  ultimately show ?thesis
    by (simp add: label_records_def)
qed

lemma unchanged_text_records:
  assumes "\<forall>l\<in>set (label_lines text). \<exists>k. line_id l = Some k \<and> mapping k \<noteq> None"
    and "\<not> (\<exists>l\<in>set (label_lines text). moves_id mapping l)"
  shows "list_all2 (remapped mapping) (label_records text) (label_records text)"
proof -
  have "remapped mapping (py_split l) (py_split l)" if "l \<in> set (label_lines text)" for l
  proof -
    from that have nb: "strip l \<noteq> []" by (rule label_lines_not_blank)
    from that assms(1) obtain k where k: "line_id l = Some k" by auto
    with that assms(2) have "mapping k = Some k" by (auto simp: moves_id_def)
    moreover from nb k obtain tok rest where "py_split l = tok # rest" "py_int tok = Some k"
      by (rule line_id_split)
    ultimately show ?thesis by (simp add: remapped_def)
  qed
  then show ?thesis
    by (simp add: label_records_def list_all2_conv_all_nth)
qed

lemma read_text_write_text [simp]: "read_text (write_text s p t) p = Inr t"
  by (simp add: read_text_def write_text_def)

lemma remap_file_effect:
  assumes "remap_file s p mapping = (r, s')"
  shows "(r = Inr True \<and> writes s' = writes s @ [p] \<and> (\<forall>q. q \<noteq> p \<longrightarrow> nodes s' q = nodes s q))
       \<or> (r \<noteq> Inr True \<and> s' = s)"
  using assms
  by (auto simp: remap_file_def write_text_def split: sum.splits prod.splits if_splits)

lemma remap_file_local:
  assumes "nodes s1 p = nodes s2 p"
  shows "fst (remap_file s1 p mapping) = fst (remap_file s2 p mapping)"
proof -
  from assms have "read_text s1 p = read_text s2 p"
    by (simp add: read_text_def)
  then show ?thesis
    by (simp add: remap_file_def split: sum.splits prod.splits)
qed

lemma moves_id_iff:
  "(\<exists>l\<in>set ls. moves_id mapping l) \<longleftrightarrow> (\<exists>l\<in>set ls. \<exists>k. line_id l = Some k \<and> mapping k \<noteq> Some k)"
  by (auto simp: moves_id_def split: option.splits)

lemma remap_file_result:
  assumes "read_text s path = Inr text"
    and "\<forall>l\<in>set (label_lines text). \<exists>k. line_id l = Some k \<and> mapping k \<noteq> None"
  shows "\<exists>changed s' text'.
           remap_file s path mapping = (Inr changed, s')
         \<and> read_text s' path = Inr text'
         \<and> list_all2 (remapped mapping) (label_records text) (label_records text')
         \<and> (changed \<longleftrightarrow> (\<exists>l\<in>set (label_lines text). \<exists>k. line_id l = Some k \<and> mapping k \<noteq> Some k))
         \<and> (changed \<longrightarrow> s' = write_text s path text'
               \<and> text' = join ''\<newline>'' (map (rewrite_line mapping) (label_lines text)) @ ''\<newline>'')
         \<and> (\<not> changed \<longrightarrow> s' = s \<and> text' = text)"
proof (cases "\<exists>l\<in>set (label_lines text). moves_id mapping l")
  case True
  let ?t = "join ''\<newline>'' (map (rewrite_line mapping) (label_lines text)) @ ''\<newline>''"
  from True have ne: "label_lines text \<noteq> []" by auto
  have "remap_file s path mapping = (Inr True, write_text s path ?t)"
    using remap_file_known [OF assms] True by simp
  moreover have "list_all2 (remapped mapping) (label_records text) (label_records ?t)"
    using assms(2) ne by (rule rewritten_text_records)
  moreover have "\<exists>l\<in>set (label_lines text). \<exists>k. line_id l = Some k \<and> mapping k \<noteq> Some k"
    using True moves_id_iff [of "label_lines text" mapping] by blast
  ultimately have "remap_file s path mapping = (Inr True, write_text s path ?t)
         \<and> read_text (write_text s path ?t) path = Inr ?t
         \<and> list_all2 (remapped mapping) (label_records text) (label_records ?t)
         \<and> (True \<longleftrightarrow> (\<exists>l\<in>set (label_lines text). \<exists>k. line_id l = Some k \<and> mapping k \<noteq> Some k))
         \<and> (True \<longrightarrow> write_text s path ?t = write_text s path ?t \<and> ?t = ?t)
         \<and> (\<not> True \<longrightarrow> write_text s path ?t = s \<and> ?t = text)"
    by simp
  then show ?thesis by blast
next
  case False
  have "remap_file s path mapping = (Inr False, s)"
    using remap_file_known [OF assms] False by simp
  moreover have "list_all2 (remapped mapping) (label_records text) (label_records text)"
    using assms(2) False by (rule unchanged_text_records)
  moreover have "\<not> (\<exists>l\<in>set (label_lines text). \<exists>k. line_id l = Some k \<and> mapping k \<noteq> Some k)"
    using False moves_id_iff [of "label_lines text" mapping] by blast
  ultimately have "remap_file s path mapping = (Inr False, s)
         \<and> read_text s path = Inr text
         \<and> list_all2 (remapped mapping) (label_records text) (label_records text)
         \<and> (False \<longleftrightarrow> (\<exists>l\<in>set (label_lines text). \<exists>k. line_id l = Some k \<and> mapping k \<noteq> Some k))
         \<and> (False \<longrightarrow> s = write_text s path text
               \<and> text = join ''\<newline>'' (map (rewrite_line mapping) (label_lines text)) @ ''\<newline>'')
         \<and> (\<not> False \<longrightarrow> s = s \<and> text = text)"
    using assms(1) by simp
  then show ?thesis by blast
qed

lemma remap_file_success_known:
  assumes "read_text s path = Inr text" and "fst (remap_file s path mapping) = Inr b"
  shows "\<forall>l\<in>set (label_lines text). \<exists>k. line_id l = Some k \<and> mapping k \<noteq> None"
proof -
  from assms obtain r where "remap_lines path mapping (splitlines (strip text)) False [] = Inr r"
    by (auto simp: remap_file_def split: sum.splits)
  then have "\<forall>l\<in>set (splitlines (strip text)). strip l \<noteq> []
      \<longrightarrow> (\<exists>k. line_id l = Some k \<and> mapping k \<noteq> None)"
    by (rule remap_lines_success)
  then show ?thesis by (simp add: label_lines_def)
qed

lemma remap_file_unknown:
  assumes "read_text s path = Inr text"
    and "\<forall>l\<in>set (label_lines text). line_id l \<noteq> None"
    and "\<exists>l\<in>set (label_lines text). \<exists>k. line_id l = Some k \<and> mapping k = None"
  shows "\<exists>k. mapping k = None \<and> (\<exists>l\<in>set (label_lines text). line_id l = Some k)
           \<and> remap_file s path mapping = (Inl (UnknownClassId path k), s)"
proof -
  from assms(2) have a: "\<forall>l\<in>set (splitlines (strip text)). strip l \<noteq> [] \<longrightarrow> line_id l \<noteq> None"
    by (simp add: label_lines_def)
  from assms(3) have b: "\<exists>l\<in>set (splitlines (strip text)). strip l \<noteq> []
      \<and> (\<exists>k. line_id l = Some k \<and> mapping k = None)"
    by (auto simp: label_lines_def)
  from remap_lines_unknown [OF a b, of path False "[]"]
  obtain k where k: "remap_lines path mapping (splitlines (strip text)) False [] = Inl (UnknownClassId path k)"
    "mapping k = None" "\<exists>l\<in>set (splitlines (strip text)). strip l \<noteq> [] \<and> line_id l = Some k"
    by blast
  from k(3) have "\<exists>l\<in>set (label_lines text). line_id l = Some k"
    by (auto simp: label_lines_def)
  moreover from k(1) assms(1) have "remap_file s path mapping = (Inl (UnknownClassId path k), s)"
    by (simp add: remap_file_def)
  ultimately show ?thesis using k(2) by blast
qed

lemma remap_loop_count:
  assumes "remap_loop s files mapping changes = (Inr n, s')"
  shows "\<exists>ws. writes s' = writes s @ ws \<and> n = changes + length ws \<and> subseq ws files"
  using assms
proof (induction files arbitrary: s changes)
  case Nil
  then show ?case by simp
next
  case (Cons f files)
  obtain r s1 where rf: "remap_file s f mapping = (r, s1)"
    by (cases "remap_file s f mapping")
  with Cons.prems obtain b where b: "r = Inr b"
    by (cases r) auto
  with rf Cons.prems
  have "remap_loop s1 files mapping (if b then changes + 1 else changes) = (Inr n, s')"
    by simp
  from Cons.IH [OF this] obtain ws where ws: "writes s' = writes s1 @ ws"
    "n = (if b then changes + 1 else changes) + length ws" "subseq ws files"
    by blast
  show ?case
  proof (cases b)
    case True
    with remap_file_effect [OF rf] b have "writes s1 = writes s @ [f]" by auto
    with ws True have "writes s' = writes s @ (f # ws)" "n = changes + length (f # ws)"
      "subseq (f # ws) (f # files)"
      by simp_all
    then show ?thesis by blast
  next
    case False
    with remap_file_effect [OF rf] b have "s1 = s" by auto
    with ws False have "writes s' = writes s @ ws" "n = changes + length ws" "subseq ws (f # files)"
      by (simp_all add: list_emb_Cons)
    then show ?thesis by blast
  qed
qed

lemma remap_loop_fails:
  assumes "distinct (pre @ [f])"
    and "\<forall>p\<in>set pre. \<exists>b. fst (remap_file s p mapping) = Inr b"
    and "fst (remap_file s f mapping) = Inl e"
  shows "fst (remap_loop s (pre @ f # post) mapping changes) = Inl e
       \<and> (\<exists>ws. writes (snd (remap_loop s (pre @ f # post) mapping changes)) = writes s @ ws
              \<and> set ws \<subseteq> set pre)
       \<and> (\<forall>q. q \<notin> set pre
              \<longrightarrow> nodes (snd (remap_loop s (pre @ f # post) mapping changes)) q = nodes s q)"
  using assms
proof (induction pre arbitrary: s changes)
  case Nil
  obtain r s1 where rf: "remap_file s f mapping = (r, s1)"
    by (cases "remap_file s f mapping")
  with Nil.prems(3) have r: "r = Inl e" by simp
  with remap_file_effect [OF rf] have "s1 = s" by auto
  with rf r show ?case by simp
next
  case (Cons p pre)
  obtain r s1 where rf: "remap_file s p mapping = (r, s1)"
    by (cases "remap_file s p mapping")
  with Cons.prems(2) obtain b where b: "r = Inr b" by auto
  from remap_file_effect [OF rf]
  have frame: "\<forall>q. q \<noteq> p \<longrightarrow> nodes s1 q = nodes s q"
    and log: "\<exists>w. writes s1 = writes s @ w \<and> set w \<subseteq> {p}"
    by auto
  from Cons.prems(1) have d: "distinct (pre @ [f])" and np: "p \<notin> set pre" "p \<noteq> f"
    by auto
  have ok: "\<forall>q\<in>set pre. \<exists>b. fst (remap_file s1 q mapping) = Inr b"
  proof
    fix q assume q: "q \<in> set pre"
    with np have "q \<noteq> p" by auto
    with frame have "nodes s1 q = nodes s q" by simp
    then have "fst (remap_file s1 q mapping) = fst (remap_file s q mapping)"
      by (rule remap_file_local)
    with Cons.prems(2) q show "\<exists>b. fst (remap_file s1 q mapping) = Inr b" by simp
  qed
  from np frame have "nodes s1 f = nodes s f" by simp
  then have "fst (remap_file s1 f mapping) = fst (remap_file s f mapping)"
    by (rule remap_file_local)
  with Cons.prems(3) have bad: "fst (remap_file s1 f mapping) = Inl e" by simp
  let ?c = "if b then changes + 1 else changes"
  let ?res = "remap_loop s1 (pre @ f # post) mapping ?c"
  from Cons.IH [OF d ok bad, of ?c]
  have ih: "fst ?res = Inl e"
    "\<exists>ws. writes (snd ?res) = writes s1 @ ws \<and> set ws \<subseteq> set pre"
    "\<forall>q. q \<notin> set pre \<longrightarrow> nodes (snd ?res) q = nodes s1 q"
    by blast+
  have step: "remap_loop s ((p # pre) @ f # post) mapping changes = ?res"
    using rf b by simp
  from ih(2) log have "\<exists>ws. writes (snd ?res) = writes s @ ws \<and> set ws \<subseteq> set (p # pre)"
    by auto
  moreover from ih(3) frame
  have "\<forall>q. q \<notin> set (p # pre) \<longrightarrow> nodes (snd ?res) q = nodes s q"
    by simp
  ultimately show ?case
    unfolding step using ih(1) by blast
qed

lemma remapped_line_ids:
  assumes "remapped mapping (py_split l) (py_split l')"
  shows "\<exists>k d. line_id l = Some k \<and> mapping k = Some d \<and> line_id l' = Some d"
  using assms
  by (auto simp: remapped_def line_id_def split: list.splits option.splits)

lemma remap_file_identity:
  assumes "read_text s path = Inr text"
    and "\<forall>l\<in>set (label_lines text). \<exists>k. line_id l = Some k \<and> mapping k = Some k"
  shows "remap_file s path mapping = (Inr False, s)"
proof -
  from assms(2) have known: "\<forall>l\<in>set (label_lines text). \<exists>k. line_id l = Some k \<and> mapping k \<noteq> None"
    by fastforce
  from assms(2) have "\<not> (\<exists>l\<in>set (label_lines text). moves_id mapping l)"
    by (fastforce simp: moves_id_def)
  with remap_file_known [OF assms(1) known] show ?thesis by simp
qed

lemma remapped_file_ids:
  assumes "list_all2 (remapped mapping) (label_records text) (label_records text')"
    and "l' \<in> set (label_lines text')"
  shows "\<exists>l\<in>set (label_lines text). \<exists>k d. line_id l = Some k \<and> mapping k = Some d \<and> line_id l' = Some d"
proof -
  from assms(1) have all: "list_all2 (\<lambda>l l'. remapped mapping (py_split l) (py_split l'))
      (label_lines text) (label_lines text')"
    by (simp add: label_records_def list_all2_map1 list_all2_map2)
  from assms(2) obtain i where i: "i < length (label_lines text')" "label_lines text' ! i = l'"
    by (auto simp: in_set_conv_nth)
  from all have len: "length (label_lines text) = length (label_lines text')"
    by (rule list_all2_lengthD)
  from all i(1) len have "remapped mapping (py_split (label_lines text ! i)) (py_split (label_lines text' ! i))"
    by (simp add: list_all2_conv_all_nth)
  with i(2) have "\<exists>k d. line_id (label_lines text ! i) = Some k \<and> mapping k = Some d \<and> line_id l' = Some d"
    by (auto dest: remapped_line_ids)
  moreover from i(1) len have "label_lines text ! i \<in> set (label_lines text)"
    by simp
  ultimately show ?thesis by blast
qed

section \<open>Unknown class ids\<close>

text \<open>
  Claim C1. Let a label file be readable, let every non-blank line of it start with an
  integer, and let one of these class ids have no entry in the mapping. Then
  \<^verbatim>\<open>remap_file\<close> raises the unknown-class-id error, which carries the path of the file
  and an id of the file that is not a key, and the file system is exactly as before: the
  file is not written. When the file is the first one of a split to fail (the label
  files enumerated before it are remapped without error), \<^verbatim>\<open>remap_split\<close> ends with
  the same error, the failing file and every file enumerated after it keep their
  content, and every write that happened went to a file enumerated before it.
\<close>

theorem unknown_class_id_aborts:
  assumes "read_text s f = Inr text"
    and "\<forall>l\<in>set (label_lines text). line_id l \<noteq> None"
    and "\<exists>l\<in>set (label_lines text). \<exists>k. line_id l = Some k \<and> mapping k = None"
  shows "\<exists>k. mapping k = None \<and> (\<exists>l\<in>set (label_lines text). line_id l = Some k)
          \<and> remap_file s f mapping = (Inl (UnknownClassId f k), s)
          \<and> (\<forall>base_dir split pre post.
                is_dir s (base_dir @ [split, ''labels''])
                \<and> glob_txt s (base_dir @ [split, ''labels'']) = pre @ f # post
                \<and> distinct (pre @ f # post)
                \<and> (\<forall>p\<in>set pre. \<exists>b. fst (remap_file s p mapping) = Inr b)
              \<longrightarrow> fst (remap_split s base_dir split mapping) = Inl (UnknownClassId f k)
                \<and> (\<forall>q\<in>set (f # post). nodes (snd (remap_split s base_dir split mapping)) q = nodes s q)
                \<and> (\<exists>ws. writes (snd (remap_split s base_dir split mapping)) = writes s @ ws
                       \<and> set ws \<subseteq> set pre \<and> (\<forall>q\<in>set (f # post). q \<notin> set ws)))"
proof -
  from remap_file_unknown [OF assms]
  obtain k where k: "mapping k = None" "\<exists>l\<in>set (label_lines text). line_id l = Some k"
    "remap_file s f mapping = (Inl (UnknownClassId f k), s)"
    by blast
  have split: "fst (remap_split s base_dir split mapping) = Inl (UnknownClassId f k)
        \<and> (\<forall>q\<in>set (f # post). nodes (snd (remap_split s base_dir split mapping)) q = nodes s q)
        \<and> (\<exists>ws. writes (snd (remap_split s base_dir split mapping)) = writes s @ ws
               \<and> set ws \<subseteq> set pre \<and> (\<forall>q\<in>set (f # post). q \<notin> set ws))"
    if dir: "is_dir s (base_dir @ [split, ''labels''])"
      and files: "glob_txt s (base_dir @ [split, ''labels'']) = pre @ f # post"
      and dist: "distinct (pre @ f # post)"
      and ok: "\<forall>p\<in>set pre. \<exists>b. fst (remap_file s p mapping) = Inr b"
    for base_dir split pre post
  proof -
    let ?res = "remap_loop s (pre @ f # post) mapping 0"
    from dist have d: "distinct (pre @ [f])" by simp
    from k(3) have bad: "fst (remap_file s f mapping) = Inl (UnknownClassId f k)" by simp
    from remap_loop_fails [OF d ok bad, of post 0]
    have r: "fst ?res = Inl (UnknownClassId f k)"
      and w: "\<exists>ws. writes (snd ?res) = writes s @ ws \<and> set ws \<subseteq> set pre"
      and n: "\<forall>q. q \<notin> set pre \<longrightarrow> nodes (snd ?res) q = nodes s q"
      by blast+
    have eq: "remap_split s base_dir split mapping = ?res"
      using dir files by (simp add: remap_split_def Let_def)
    from dist have out: "\<forall>q\<in>set (f # post). q \<notin> set pre" by auto
    with n have "\<forall>q\<in>set (f # post). nodes (snd ?res) q = nodes s q" by blast
    moreover from w out have "\<exists>ws. writes (snd ?res) = writes s @ ws \<and> set ws \<subseteq> set pre
        \<and> (\<forall>q\<in>set (f # post). q \<notin> set ws)"
      by blast
    ultimately show ?thesis
      unfolding eq using r by blast
  qed
  from k split show ?thesis by blast
qed

theorem unknown_class_id_aborts_witness:
  "read_text split_C [''data'', ''training'', ''labels'', ''b.txt''] = Inr ''5 0.1 0.1 0.1 0.1\<newline>''
   \<and> label_lines ''5 0.1 0.1 0.1 0.1\<newline>'' = [''5 0.1 0.1 0.1 0.1'']
   \<and> line_id ''5 0.1 0.1 0.1 0.1'' = Some 5
   \<and> [(0::int) \<mapsto> 0, 1 \<mapsto> 2, 2 \<mapsto> (1::int)] 5 = None
   \<and> remap_file split_C [''data'', ''training'', ''labels'', ''b.txt''] [0 \<mapsto> 0, 1 \<mapsto> 2, 2 \<mapsto> 1]
       = (Inl (UnknownClassId [''data'', ''training'', ''labels'', ''b.txt''] 5), split_C)
   \<and> fst (remap_split split_C [''data''] ''training'' [0 \<mapsto> 0, 1 \<mapsto> 2, 2 \<mapsto> 1])
       = Inl (UnknownClassId [''data'', ''training'', ''labels'', ''b.txt''] 5)
   \<and> nodes (snd (remap_split split_C [''data''] ''training'' [0 \<mapsto> 0, 1 \<mapsto> 2, 2 \<mapsto> 1]))
        [''data'', ''training'', ''labels'', ''c.txt'']
       = nodes split_C [''data'', ''training'', ''labels'', ''c.txt'']"
proof -
  let ?A = "[''data'', ''training'', ''labels'', ''a.txt'']"
  let ?B = "[''data'', ''training'', ''labels'', ''b.txt'']"
  let ?C = "[''data'', ''training'', ''labels'', ''c.txt'']"
  let ?M = "[(0::int) \<mapsto> 0, 1 \<mapsto> 2, 2 \<mapsto> (1::int)]"
  let ?T = "''5 0.1 0.1 0.1 0.1\<newline>''"
  have h1: "read_text split_C ?B = Inr ?T"
    by code_simp
  have ll: "label_lines ?T = [''5 0.1 0.1 0.1 0.1'']"
    by code_simp
  have li: "line_id ''5 0.1 0.1 0.1 0.1'' = Some 5"
    by code_simp
  have h2: "\<forall>l\<in>set (label_lines ?T). line_id l \<noteq> None"
    by (simp add: ll li)
  have h3: "\<exists>l\<in>set (label_lines ?T). \<exists>k. line_id l = Some k \<and> ?M k = None"
    by (simp add: ll li)
  from unknown_class_id_aborts [OF h1 h2 h3]
  obtain k where bad_file: "remap_file split_C ?B ?M = (Inl (UnknownClassId ?B k), split_C)"
    and whole: "\<forall>base_dir split pre post.
        is_dir split_C (base_dir @ [split, ''labels''])
        \<and> glob_txt split_C (base_dir @ [split, ''labels'']) = pre @ ?B # post
        \<and> distinct (pre @ ?B # post)
        \<and> (\<forall>p\<in>set pre. \<exists>b. fst (remap_file split_C p ?M) = Inr b)
      \<longrightarrow> fst (remap_split split_C base_dir split ?M) = Inl (UnknownClassId ?B k)
        \<and> (\<forall>q\<in>set (?B # post). nodes (snd (remap_split split_C base_dir split ?M)) q = nodes split_C q)
        \<and> (\<exists>ws. writes (snd (remap_split split_C base_dir split ?M)) = writes split_C @ ws
               \<and> set ws \<subseteq> set pre \<and> (\<forall>q\<in>set (?B # post). q \<notin> set ws))"
    by blast
  have "fst (remap_file split_C ?B ?M) = Inl (UnknownClassId ?B 5)"
    by code_simp
  with bad_file have k: "k = 5" by simp
  have dir: "is_dir split_C ([''data''] @ [''training'', ''labels''])"
    by code_simp
  have files: "glob_txt split_C ([''data''] @ [''training'', ''labels'']) = [?A] @ ?B # [?C]"
    by code_simp
  have dist: "distinct ([?A] @ ?B # [?C])"
    by simp
  have first: "fst (remap_file split_C ?A ?M) = Inr True"
    by code_simp
  have ok: "\<forall>p\<in>set [?A]. \<exists>b. fst (remap_file split_C p ?M) = Inr b"
  proof
    fix p assume "p \<in> set [?A]"
    then have "p = ?A" by simp
    with first show "\<exists>b. fst (remap_file split_C p ?M) = Inr b" by blast
  qed
  have prem: "is_dir split_C ([''data''] @ [''training'', ''labels''])
      \<and> glob_txt split_C ([''data''] @ [''training'', ''labels'']) = [?A] @ ?B # [?C]
      \<and> distinct ([?A] @ ?B # [?C])
      \<and> (\<forall>p\<in>set [?A]. \<exists>b. fst (remap_file split_C p ?M) = Inr b)"
    by (rule conjI [OF dir conjI [OF files conjI [OF dist ok]]])
  note res = whole [rule_format, of "[''data'']" "''training''" "[?A]" "[?C]", OF prem]
  from res have r1: "fst (remap_split split_C [''data''] ''training'' ?M) = Inl (UnknownClassId ?B k)"
    by (rule conjunct1)
  from res have "\<forall>q\<in>set (?B # [?C]). nodes (snd (remap_split split_C [''data''] ''training'' ?M)) q
      = nodes split_C q"
    by (rule conjunct2 [THEN conjunct1])
  then have r2: "nodes (snd (remap_split split_C [''data''] ''training'' ?M)) ?C = nodes split_C ?C"
    by (simp only: list.set ball_simps insert_iff simp_thms)
  have m5: "?M 5 = None"
    by simp
  show ?thesis
    by (rule conjI [OF h1 conjI [OF ll conjI [OF li conjI [OF m5
          conjI [OF bad_file [unfolded k] conjI [OF r1 [unfolded k] r2]]]]]])
qed

section \<open>Substitution of known class ids\<close>

text \<open>
  Claim C2. When every class id of a readable label file is a key of the mapping,
  \<^verbatim>\<open>remap_file\<close> succeeds, and the file then holds one record per non-blank line of the
  original in which the first token reads as the destination id and all other tokens are
  the original ones; it reports a change exactly when some id has a different destination,
  and only then is the file written, with the lines built by the loop, each ended by a
  newline. Whenever \<^verbatim>\<open>remap_split\<close> returns a count, that count is the number of writes
  it made, each to a different entry of the enumeration when the enumeration has no
  repetition. For the file \<^verbatim>\<open>2 0.5 0.5 0.2 0.2\<close> and the mapping 2 to 0 the file becomes
  \<^verbatim>\<open>0 0.5 0.5 0.2 0.2\<close> and the count is 1.
\<close>

theorem remap_known_ids_substitutes:
  "(read_text s path = Inr text
      \<and> (\<forall>l\<in>set (label_lines text). \<exists>k. line_id l = Some k \<and> mapping k \<noteq> None)
    \<longrightarrow> (\<exists>changed s' text'.
            remap_file s path mapping = (Inr changed, s')
          \<and> read_text s' path = Inr text'
          \<and> list_all2 (remapped mapping) (label_records text) (label_records text')
          \<and> (changed \<longleftrightarrow> (\<exists>l\<in>set (label_lines text). \<exists>k. line_id l = Some k \<and> mapping k \<noteq> Some k))
          \<and> (changed \<longrightarrow> s' = write_text s path text'
                \<and> text' = join ''\<newline>'' (map (rewrite_line mapping) (label_lines text)) @ ''\<newline>'')
          \<and> (\<not> changed \<longrightarrow> s' = s \<and> text' = text)))
   \<and> (remap_split s base_dir split mapping = (Inr n, s'')
        \<longrightarrow> (\<exists>ws. writes s'' = writes s @ ws \<and> length ws = n
                 \<and> subseq ws (glob_txt s (base_dir @ [split, ''labels'']))))
   \<and> fst (remap_split split_A [''data''] ''training'' [2 \<mapsto> 0]) = Inr 1
   \<and> read_text (snd (remap_split split_A [''data''] ''training'' [2 \<mapsto> 0]))
        [''data'', ''training'', ''labels'', ''p1.txt''] = Inr ''0 0.5 0.5 0.2 0.2\<newline>''"
proof -
  have one_file: "read_text s path = Inr text
      \<and> (\<forall>l\<in>set (label_lines text). \<exists>k. line_id l = Some k \<and> mapping k \<noteq> None)
    \<longrightarrow> (\<exists>changed s' text'.
            remap_file s path mapping = (Inr changed, s')
          \<and> read_text s' path = Inr text'
          \<and> list_all2 (remapped mapping) (label_records text) (label_records text')
          \<and> (changed \<longleftrightarrow> (\<exists>l\<in>set (label_lines text). \<exists>k. line_id l = Some k \<and> mapping k \<noteq> Some k))
          \<and> (changed \<longrightarrow> s' = write_text s path text'
                \<and> text' = join ''\<newline>'' (map (rewrite_line mapping) (label_lines text)) @ ''\<newline>'')
          \<and> (\<not> changed \<longrightarrow> s' = s \<and> text' = text))"
  proof
    assume "read_text s path = Inr text
      \<and> (\<forall>l\<in>set (label_lines text). \<exists>k. line_id l = Some k \<and> mapping k \<noteq> None)"
    then have "read_text s path = Inr text"
      and "\<forall>l\<in>set (label_lines text). \<exists>k. line_id l = Some k \<and> mapping k \<noteq> None"
      by simp_all
    then show "\<exists>changed s' text'.
            remap_file s path mapping = (Inr changed, s')
          \<and> read_text s' path = Inr text'
          \<and> list_all2 (remapped mapping) (label_records text) (label_records text')
          \<and> (changed \<longleftrightarrow> (\<exists>l\<in>set (label_lines text). \<exists>k. line_id l = Some k \<and> mapping k \<noteq> Some k))
          \<and> (changed \<longrightarrow> s' = write_text s path text'
                \<and> text' = join ''\<newline>'' (map (rewrite_line mapping) (label_lines text)) @ ''\<newline>'')
          \<and> (\<not> changed \<longrightarrow> s' = s \<and> text' = text)"
      by (rule remap_file_result)
  qed
  have count: "remap_split s base_dir split mapping = (Inr n, s'')
        \<longrightarrow> (\<exists>ws. writes s'' = writes s @ ws \<and> length ws = n
                 \<and> subseq ws (glob_txt s (base_dir @ [split, ''labels''])))"
  proof
    assume r: "remap_split s base_dir split mapping = (Inr n, s'')"
    then have "remap_loop s (glob_txt s (base_dir @ [split, ''labels''])) mapping 0 = (Inr n, s'')"
      by (simp add: remap_split_def Let_def split: if_splits)
    from remap_loop_count [OF this]
    show "\<exists>ws. writes s'' = writes s @ ws \<and> length ws = n
        \<and> subseq ws (glob_txt s (base_dir @ [split, ''labels'']))"
      by auto
  qed
  have a1: "fst (remap_split split_A [''data''] ''training'' [2 \<mapsto> 0]) = Inr 1"
    by code_simp
  have a2: "read_text (snd (remap_split split_A [''data''] ''training'' [2 \<mapsto> 0]))
        [''data'', ''training'', ''labels'', ''p1.txt''] = Inr ''0 0.5 0.5 0.2 0.2\<newline>''"
    by code_simp
  show ?thesis
    by (rule conjI [OF one_file conjI [OF count conjI [OF a1 a2]]])
qed

theorem remap_known_ids_substitutes_witness:
  "read_text split_A [''data'', ''training'', ''labels'', ''p1.txt''] = Inr ''2 0.5 0.5 0.2 0.2''
   \<and> label_lines ''2 0.5 0.5 0.2 0.2'' = [''2 0.5 0.5 0.2 0.2'']
   \<and> line_id ''2 0.5 0.5 0.2 0.2'' = Some 2
   \<and> [(2::int) \<mapsto> (0::int)] 2 = Some 0
   \<and> remap_file split_A [''data'', ''training'', ''labels'', ''p1.txt''] [2 \<mapsto> 0]
       = (Inr True,
          write_text split_A [''data'', ''training'', ''labels'', ''p1.txt''] ''0 0.5 0.5 0.2 0.2\<newline>'')
   \<and> (\<exists>ws. writes (snd (remap_split split_A [''data''] ''training'' [2 \<mapsto> 0])) = writes split_A @ ws
          \<and> length ws = 1)"
proof -
  let ?P = "[''data'', ''training'', ''labels'', ''p1.txt'']"
  let ?T = "''2 0.5 0.5 0.2 0.2''"
  let ?M = "[(2::int) \<mapsto> (0::int)]"
  let ?R = "remap_split split_A [''data''] ''training'' ?M"
  have h1: "read_text split_A ?P = Inr ?T"
    by code_simp
  have ll: "label_lines ?T = [?T]"
    by code_simp
  have li: "line_id ?T = Some 2"
    by code_simp
  have m2: "?M 2 = Some 0"
    by simp
  have h2: "\<forall>l\<in>set (label_lines ?T). \<exists>k. line_id l = Some k \<and> ?M k \<noteq> None"
    by (simp add: ll li)
  have mv: "\<exists>l\<in>set (label_lines ?T). \<exists>k. line_id l = Some k \<and> ?M k \<noteq> Some k"
    by (simp add: ll li)
  have new_text: "join ''\<newline>'' (map (rewrite_line ?M) (label_lines ?T)) @ ''\<newline>''
      = ''0 0.5 0.5 0.2 0.2\<newline>''"
    by code_simp
  note t = remap_known_ids_substitutes [of split_A ?P ?T ?M "[''data'']" "''training''" 1 "snd ?R"]
  from t have "read_text split_A ?P = Inr ?T
      \<and> (\<forall>l\<in>set (label_lines ?T). \<exists>k. line_id l = Some k \<and> ?M k \<noteq> None)
    \<longrightarrow> (\<exists>changed s' text'.
            remap_file split_A ?P ?M = (Inr changed, s')
          \<and> read_text s' ?P = Inr text'
          \<and> list_all2 (remapped ?M) (label_records ?T) (label_records text')
          \<and> (changed \<longleftrightarrow> (\<exists>l\<in>set (label_lines ?T). \<exists>k. line_id l = Some k \<and> ?M k \<noteq> Some k))
          \<and> (changed \<longrightarrow> s' = write_text split_A ?P text'
                \<and> text' = join ''\<newline>'' (map (rewrite_line ?M) (label_lines ?T)) @ ''\<newline>'')
          \<and> (\<not> changed \<longrightarrow> s' = split_A \<and> text' = ?T))"
    by (rule conjunct1)
  with h1 h2 obtain changed s' text' where r: "remap_file split_A ?P ?M = (Inr changed, s')"
    and ch: "changed \<longleftrightarrow> (\<exists>l\<in>set (label_lines ?T). \<exists>k. line_id l = Some k \<and> ?M k \<noteq> Some k)"
    and w: "changed \<longrightarrow> s' = write_text split_A ?P text'
        \<and> text' = join ''\<newline>'' (map (rewrite_line ?M) (label_lines ?T)) @ ''\<newline>''"
    by blast
  from ch mv have yes: "changed = True"
    by blast
  with w have "s' = write_text split_A ?P text'"
    and "text' = join ''\<newline>'' (map (rewrite_line ?M) (label_lines ?T)) @ ''\<newline>''"
    by blast+
  with r yes have "remap_file split_A ?P ?M
      = (Inr True, write_text split_A ?P (join ''\<newline>'' (map (rewrite_line ?M) (label_lines ?T)) @ ''\<newline>''))"
    by (simp only:)
  then have c1: "remap_file split_A ?P ?M = (Inr True, write_text split_A ?P ''0 0.5 0.5 0.2 0.2\<newline>'')"
    by (simp only: new_text)
  from t have cnt: "?R = (Inr 1, snd ?R)
      \<longrightarrow> (\<exists>ws. writes (snd ?R) = writes split_A @ ws \<and> length ws = 1
             \<and> subseq ws (glob_txt split_A ([''data''] @ [''training'', ''labels''])))"
    by (rule conjunct2 [THEN conjunct1])
  from t have "fst ?R = Inr 1"
    by (rule conjunct2 [THEN conjunct2, THEN conjunct1])
  then have "?R = (Inr 1, snd ?R)"
    by (simp add: prod_eq_iff)
  with cnt have c2: "\<exists>ws. writes (snd ?R) = writes split_A @ ws \<and> length ws = 1"
    by blast
  show ?thesis
    by (rule conjI [OF h1 conjI [OF ll conjI [OF li conjI [OF m2 conjI [OF c1 c2]]]]])
qed

section \<open>Identity mappings\<close>

text \<open>
  Claim C3. When the mapping sends every class id of a readable label file to itself,
  \<^verbatim>\<open>remap_file\<close> returns \<open>False\<close> and the file system, write log included, is the one
  it started from. Hence after any successful run of \<^verbatim>\<open>remap_file\<close>, a second run with
  a mapping that is the identity on the destinations of the ids of the file changes
  nothing.
\<close>

theorem identity_remap_leaves_file:
  "(read_text s path = Inr text
      \<and> (\<forall>l\<in>set (label_lines text). \<exists>k. line_id l = Some k \<and> mapping k = Some k)
    \<longrightarrow> remap_file s path mapping = (Inr False, s))
   \<and> (read_text s path = Inr text
      \<and> remap_file s path mapping = (Inr changed, s')
      \<and> (\<forall>l\<in>set (label_lines text). \<forall>k d. line_id l = Some k \<and> mapping k = Some d
            \<longrightarrow> mapping' d = Some d)
    \<longrightarrow> remap_file s' path mapping' = (Inr False, s'))"
proof (intro conjI impI)
  assume "read_text s path = Inr text
      \<and> (\<forall>l\<in>set (label_lines text). \<exists>k. line_id l = Some k \<and> mapping k = Some k)"
  then show "remap_file s path mapping = (Inr False, s)"
    using remap_file_identity by blast
next
  assume a: "read_text s path = Inr text
      \<and> remap_file s path mapping = (Inr changed, s')
      \<and> (\<forall>l\<in>set (label_lines text). \<forall>k d. line_id l = Some k \<and> mapping k = Some d
            \<longrightarrow> mapping' d = Some d)"
  then have rt: "read_text s path = Inr text"
    and rf: "remap_file s path mapping = (Inr changed, s')"
    and idm: "\<forall>l\<in>set (label_lines text). \<forall>k d. line_id l = Some k \<and> mapping k = Some d
            \<longrightarrow> mapping' d = Some d"
    by blast+
  from rf have "fst (remap_file s path mapping) = Inr changed" by simp
  with rt have known: "\<forall>l\<in>set (label_lines text). \<exists>k. line_id l = Some k \<and> mapping k \<noteq> None"
    by (rule remap_file_success_known)
  from remap_file_result [OF rt known] rf
  obtain text' where rt': "read_text s' path = Inr text'"
    and rel: "list_all2 (remapped mapping) (label_records text) (label_records text')"
    by auto
  have "\<forall>l'\<in>set (label_lines text'). \<exists>d. line_id l' = Some d \<and> mapping' d = Some d"
  proof
    fix l' assume "l' \<in> set (label_lines text')"
    with rel obtain l k d where "l \<in> set (label_lines text)" "line_id l = Some k"
      "mapping k = Some d" "line_id l' = Some d"
      using remapped_file_ids by blast
    with idm show "\<exists>d. line_id l' = Some d \<and> mapping' d = Some d" by blast
  qed
  with rt' show "remap_file s' path mapping' = (Inr False, s')"
    by (rule remap_file_identity)
qed

theorem identity_remap_leaves_file_witness:
  "read_text split_B [''data'', ''training'', ''labels'', ''p1.txt''] = Inr ''0 0.5 0.5 0.2 0.2''
   \<and> label_lines ''0 0.5 0.5 0.2 0.2'' = [''0 0.5 0.5 0.2 0.2'']
   \<and> line_id ''0 0.5 0.5 0.2 0.2'' = Some 0
   \<and> [(0::int) \<mapsto> (0::int)] 0 = Some 0
   \<and> remap_file split_B [''data'', ''training'', ''labels'', ''p1.txt''] [0 \<mapsto> 0] = (Inr False, split_B)
   \<and> read_text split_A [''data'', ''training'', ''labels'', ''p1.txt''] = Inr ''2 0.5 0.5 0.2 0.2''
   \<and> fst (remap_file split_A [''data'', ''training'', ''labels'', ''p1.txt''] [2 \<mapsto> 0]) = Inr True
   \<and> label_lines ''2 0.5 0.5 0.2 0.2'' = [''2 0.5 0.5 0.2 0.2'']
   \<and> line_id ''2 0.5 0.5 0.2 0.2'' = Some 2
   \<and> [(2::int) \<mapsto> (0::int)] 2 = Some 0
   \<and> remap_file (snd (remap_file split_A [''data'', ''training'', ''labels'', ''p1.txt''] [2 \<mapsto> 0]))
        [''data'', ''training'', ''labels'', ''p1.txt''] [0 \<mapsto> 0]
       = (Inr False, snd (remap_file split_A [''data'', ''training'', ''labels'', ''p1.txt''] [2 \<mapsto> 0]))"
proof -
  let ?P = "[''data'', ''training'', ''labels'', ''p1.txt'']"
  let ?T0 = "''0 0.5 0.5 0.2 0.2''"
  let ?T2 = "''2 0.5 0.5 0.2 0.2''"
  let ?I = "[(0::int) \<mapsto> (0::int)]"
  let ?M = "[(2::int) \<mapsto> (0::int)]"
  let ?S = "snd (remap_file split_A ?P ?M)"
  have b1: "read_text split_B ?P = Inr ?T0"
    by code_simp
  have ll0: "label_lines ?T0 = [?T0]"
    by code_simp
  have li0: "line_id ?T0 = Some 0"
    by code_simp
  have b2: "\<forall>l\<in>set (label_lines ?T0). \<exists>k. line_id l = Some k \<and> ?I k = Some k"
    by (simp add: ll0 li0)
  have a1: "read_text split_A ?P = Inr ?T2"
    by code_simp
  have ll2: "label_lines ?T2 = [?T2]"
    by code_simp
  have li2: "line_id ?T2 = Some 2"
    by code_simp
  have a2: "fst (remap_file split_A ?P ?M) = Inr True"
    by code_simp
  then have a2': "remap_file split_A ?P ?M = (Inr True, ?S)"
    by (simp add: prod_eq_iff)
  have a3: "\<forall>l\<in>set (label_lines ?T2). \<forall>k d. line_id l = Some k \<and> ?M k = Some d \<longrightarrow> ?I d = Some d"
    by (simp add: ll2 li2)
  from identity_remap_leaves_file [of split_B ?P ?T0 ?I]
  have "read_text split_B ?P = Inr ?T0
      \<and> (\<forall>l\<in>set (label_lines ?T0). \<exists>k. line_id l = Some k \<and> ?I k = Some k)
    \<longrightarrow> remap_file split_B ?P ?I = (Inr False, split_B)"
    by (rule conjunct1)
  with b1 b2 have r1: "remap_file split_B ?P ?I = (Inr False, split_B)"
    by blast
  from identity_remap_leaves_file [of split_A ?P ?T2 ?M True ?S ?I]
  have "read_text split_A ?P = Inr ?T2
      \<and> remap_file split_A ?P ?M = (Inr True, ?S)
      \<and> (\<forall>l\<in>set (label_lines ?T2). \<forall>k d. line_id l = Some k \<and> ?M k = Some d \<longrightarrow> ?I d = Some d)
    \<longrightarrow> remap_file ?S ?P ?I = (Inr False, ?S)"
    by (rule conjunct2)
  with a1 a2' a3 have r2: "remap_file ?S ?P ?I = (Inr False, ?S)"
    by blast
  have i0: "?I 0 = Some 0" and m2: "?M 2 = Some 0"
    by simp_all
  show ?thesis
    by (rule conjI [OF b1 conjI [OF ll0 conjI [OF li0 conjI [OF i0 conjI [OF r1
          conjI [OF a1 conjI [OF a2 conjI [OF ll2 conjI [OF li2 conjI [OF m2 r2]]]]]]]]]])
qed

section \<open>Box geometry\<close>

text \<open>
  Claim C4. For all inputs \<^verbatim>\<open>denorm_box\<close> returns the four corner coordinates
  \<open>(cx - w/2) * width\<close>, \<open>(cy - h/2) * height\<close>, \<open>(cx + w/2) * width\<close>,
  \<open>(cy + h/2) * height\<close>, the first two clamped from below at 0 and the last two clamped
  from above at the image width and height. For \<open>cx = 0\<close>, \<open>w = 0.2\<close> and a
  width of 100 the unclamped left edge is -10 and the result is 0.
\<close>

theorem denorm_box_clamped_formula:
  "denorm_box cx cy w h width height =
     (max 0 ((cx - w / 2) * real_of_int width),
      max 0 ((cy - h / 2) * real_of_int height),
      min (real_of_int width) ((cx + w / 2) * real_of_int width),
      min (real_of_int height) ((cy + h / 2) * real_of_int height))
   \<and> (0 - (2 / 10) / 2) * real_of_int 100 = - 10
   \<and> fst (denorm_box 0 cy (2 / 10) h 100 height) = 0"
  by (simp add: denorm_box_def Let_def)

text \<open>
  Claim C9. When no clamp fires (the left and top edges are not negative, the right and
  bottom edges do not exceed the positive image width and height), re-normalising the
  corners returned by \<^verbatim>\<open>denorm_box\<close> gives back the centre and the size exactly:
  \<open>cx = (x0 + x1) / (2 * width)\<close>, \<open>w = (x1 - x0) / width\<close>, and likewise for
  \<open>cy\<close> and \<open>h\<close>.
\<close>

theorem denorm_box_roundtrip:
  assumes "0 < width" and "0 < height"
    and "0 \<le> (cx - w / 2) * real_of_int width"
    and "(cx + w / 2) * real_of_int width \<le> real_of_int width"
    and "0 \<le> (cy - h / 2) * real_of_int height"
    and "(cy + h / 2) * real_of_int height \<le> real_of_int height"
    and "denorm_box cx cy w h width height = (x0, y0, x1, y1)"
  shows "(x0 + x1) / (2 * real_of_int width) = cx \<and> (x1 - x0) / real_of_int width = w
       \<and> (y0 + y1) / (2 * real_of_int height) = cy \<and> (y1 - y0) / real_of_int height = h"
proof -
  have "denorm_box cx cy w h width height =
      ((cx - w / 2) * real_of_int width, (cy - h / 2) * real_of_int height,
       (cx + w / 2) * real_of_int width, (cy + h / 2) * real_of_int height)"
    unfolding denorm_box_def Let_def
    using assms(3-6) by (simp only: max_absorb2 min_absorb2)
  with assms(7)
  have x0: "x0 = (cx - w / 2) * real_of_int width" and x1: "x1 = (cx + w / 2) * real_of_int width"
    and y0: "y0 = (cy - h / 2) * real_of_int height" and y1: "y1 = (cy + h / 2) * real_of_int height"
    by simp_all
  have W: "real_of_int width \<noteq> 0" and H: "real_of_int height \<noteq> 0"
    using assms(1,2) by simp_all
  have "(x0 + x1) / (2 * real_of_int width) = cx"
    unfolding x0 x1 using W by (simp add: field_simps)
  moreover have "(x1 - x0) / real_of_int width = w"
    unfolding x0 x1 using W by (simp add: field_simps)
  moreover have "(y0 + y1) / (2 * real_of_int height) = cy"
    unfolding y0 y1 using H by (simp add: field_simps)
  moreover have "(y1 - y0) / real_of_int height = h"
    unfolding y0 y1 using H by (simp add: field_simps)
  ultimately show ?thesis by simp
qed

theorem denorm_box_roundtrip_witness:
  "denorm_box (1/2) (1/2) (1/5) (1/5) 100 200 = (40, 80, 60, 120)
   \<and> (40 + 60) / (2 * real_of_int 100) = 1/2 \<and> (60 - 40) / real_of_int 100 = 1/5
   \<and> (80 + 120) / (2 * real_of_int 200) = 1/2 \<and> (120 - 80) / real_of_int 200 = 1/5"
proof -
  have d: "denorm_box (1/2) (1/2) (1/5) (1/5) 100 200 = (40, 80, 60, 120)"
    by (simp add: denorm_box_def Let_def)
  from denorm_box_roundtrip [OF _ _ _ _ _ _ d] d show ?thesis by simp
qed

section \<open>Image resolution\<close>

text \<open>
  Claim C8. \<^verbatim>\<open>find_image\<close> tries \<^verbatim>\<open>.jpg\<close>, \<^verbatim>\<open>.jpeg\<close>, \<^verbatim>\<open>.png\<close> in that order and
  returns the first candidate that exists, so a \<^verbatim>\<open>.jpg\<close> wins over a \<^verbatim>\<open>.png\<close> of the
  same stem; it fails, with the error naming the stem and the directory, exactly when
  none of the three candidates exists.
\<close>

theorem find_image_extension_order:
  "(exists_path s (d @ [stem @ ''.jpg'']) \<longrightarrow> find_image s d stem = Inr (d @ [stem @ ''.jpg'']))
   \<and> (\<not> exists_path s (d @ [stem @ ''.jpg'']) \<and> exists_path s (d @ [stem @ ''.jpeg''])
        \<longrightarrow> find_image s d stem = Inr (d @ [stem @ ''.jpeg'']))
   \<and> (\<not> exists_path s (d @ [stem @ ''.jpg'']) \<and> \<not> exists_path s (d @ [stem @ ''.jpeg''])
        \<and> exists_path s (d @ [stem @ ''.png''])
        \<longrightarrow> find_image s d stem = Inr (d @ [stem @ ''.png'']))
   \<and> ((\<exists>e. find_image s d stem = Inl e) \<longleftrightarrow>
        \<not> exists_path s (d @ [stem @ ''.jpg'']) \<and> \<not> exists_path s (d @ [stem @ ''.jpeg''])
        \<and> \<not> exists_path s (d @ [stem @ ''.png'']))
   \<and> (find_image s d stem = Inl (NoImageFound stem d) \<longleftrightarrow>
        \<not> exists_path s (d @ [stem @ ''.jpg'']) \<and> \<not> exists_path s (d @ [stem @ ''.jpeg''])
        \<and> \<not> exists_path s (d @ [stem @ ''.png'']))"
  by (simp add: find_image_def image_extensions_def Let_def)

theorem find_image_extension_order_witness:
  "exists_path \<lparr>nodes = [[''images'', ''p1.png''] \<mapsto> OtherFile, [''images'', ''p1.jpg''] \<mapsto> OtherFile],
                 writes = []\<rparr> ([''images''] @ [''p1'' @ ''.jpg''])
   \<and> exists_path \<lparr>nodes = [[''images'', ''p1.png''] \<mapsto> OtherFile, [''images'', ''p1.jpg''] \<mapsto> OtherFile],
                 writes = []\<rparr> ([''images''] @ [''p1'' @ ''.png''])
   \<and> find_image \<lparr>nodes = [[''images'', ''p1.png''] \<mapsto> OtherFile, [''images'', ''p1.jpg''] \<mapsto> OtherFile],
                 writes = []\<rparr> [''images''] ''p1'' = Inr [''images'', ''p1.jpg'']
   \<and> \<not> exists_path \<lparr>nodes = Map.empty, writes = []\<rparr> ([''images''] @ [''p1'' @ ''.jpg''])
   \<and> find_image \<lparr>nodes = Map.empty, writes = []\<rparr> [''images''] ''p1'' = Inl (NoImageFound ''p1'' [''images''])"
  using find_image_extension_order
          [of "\<lparr>nodes = [[''images'', ''p1.png''] \<mapsto> OtherFile, [''images'', ''p1.jpg''] \<mapsto> OtherFile],
                 writes = []\<rparr>" "[''images'']" "''p1''"]
        find_image_extension_order [of "\<lparr>nodes = Map.empty, writes = []\<rparr>" "[''images'']" "''p1''"]
  by (simp add: exists_path_def)

section \<open>Sample selection\<close>

lemma slice_to_nonneg: "0 \<le> cnt \<Longrightarrow> slice_to xs cnt = take (nat cnt) xs"
  by (simp add: slice_to_def)

lemma pick_label_files_plain:
  "pick_label_files shuffle s d cnt False g = (slice_to (sort (glob_txt s d)) cnt, g)"
  by (simp add: pick_label_files_def Let_def)

lemma sorted_take_le_rest:
  assumes "sorted (ys :: 'a::linorder list)" and "i < length (take n ys)"
    and "length (take n ys) \<le> j" and "j < length ys"
  shows "take n ys ! i \<le> ys ! j"
proof -
  from assms(2) have "i < n" and "i < length ys" by simp_all
  then have "take n ys ! i = ys ! i" by simp
  moreover from assms(2,3) have "i \<le> j" by linarith
  ultimately show ?thesis
    using assms(1,4) by (simp add: sorted_nth_mono)
qed

text \<open>
  Claim C6. Without randomisation and for a count that is not negative,
  \<^verbatim>\<open>pick_label_files\<close> returns the first \<open>count\<close> label files of the sorted
  enumeration, or all of them when there are fewer: the result is sorted, has
  \<open>min count n\<close> entries, and none of its entries is above a file that was left out.
  It is the empty list when the directory has no label file or the count is 0, and
  the random generator is not touched.
\<close>

theorem pick_label_files_first_sorted:
  assumes "0 \<le> cnt"
  shows "fst (pick_label_files shuffle s d cnt False g) = take (nat cnt) (sort (glob_txt s d))
       \<and> snd (pick_label_files shuffle s d cnt False g) = g
       \<and> sorted (fst (pick_label_files shuffle s d cnt False g))
       \<and> length (fst (pick_label_files shuffle s d cnt False g)) = min (nat cnt) (length (glob_txt s d))
       \<and> (\<forall>i j. i < length (fst (pick_label_files shuffle s d cnt False g))
              \<and> length (fst (pick_label_files shuffle s d cnt False g)) \<le> j
              \<and> j < length (glob_txt s d)
            \<longrightarrow> fst (pick_label_files shuffle s d cnt False g) ! i \<le> sort (glob_txt s d) ! j)
       \<and> (nodes s d = Some (Dir []) \<or> glob_txt s d = [] \<or> cnt = 0
            \<longrightarrow> fst (pick_label_files shuffle s d cnt False g) = [])"
proof -
  let ?files = "sort (glob_txt s d)"
  have r: "fst (pick_label_files shuffle s d cnt False g) = take (nat cnt) ?files"
    using assms by (simp add: pick_label_files_plain slice_to_nonneg)
  have g: "snd (pick_label_files shuffle s d cnt False g) = g"
    by (simp add: pick_label_files_plain)
  have srt: "sorted (take (nat cnt) ?files)"
    by simp
  have len: "length (take (nat cnt) ?files) = min (nat cnt) (length (glob_txt s d))"
    by (simp add: min.commute)
  have rest: "\<forall>i j. i < length (take (nat cnt) ?files) \<and> length (take (nat cnt) ?files) \<le> j
                \<and> j < length (glob_txt s d) \<longrightarrow> take (nat cnt) ?files ! i \<le> ?files ! j"
    using sorted_take_le_rest [of ?files _ "nat cnt"] by simp
  have "nodes s d = Some (Dir []) \<Longrightarrow> glob_txt s d = []"
    by (simp add: glob_txt_def)
  then have empty: "nodes s d = Some (Dir []) \<or> glob_txt s d = [] \<or> cnt = 0
      \<longrightarrow> take (nat cnt) ?files = []"
    by auto
  show ?thesis
    unfolding r using g srt len rest empty by blast
qed

theorem pick_label_files_first_sorted_witness:
  "(0::int) \<le> 2
   \<and> fst (pick_label_files (\<lambda>g xs. (rev xs, Suc g))
        \<lparr>nodes = [[''val'', ''labels''] \<mapsto> Dir [''c.txt'', ''a.txt'', ''notes.md'', ''b.txt'']], writes = []\<rparr>
        [''val'', ''labels''] 2 False 0)
     = [[''val'', ''labels'', ''a.txt''], [''val'', ''labels'', ''b.txt'']]"
proof -
  let ?s = "\<lparr>nodes = [[''val'', ''labels''] \<mapsto> Dir [''c.txt'', ''a.txt'', ''notes.md'', ''b.txt'']],
              writes = []\<rparr>"
  have srt: "take (nat 2) (sort (glob_txt ?s [''val'', ''labels'']))
      = [[''val'', ''labels'', ''a.txt''], [''val'', ''labels'', ''b.txt'']]"
    by code_simp
  have h: "(0::int) \<le> 2" by simp
  from pick_label_files_first_sorted [OF h, of "\<lambda>g xs. (rev xs, Suc g)" ?s "[''val'', ''labels'']" 0]
  have "fst (pick_label_files (\<lambda>g xs. (rev xs, Suc g)) ?s [''val'', ''labels''] 2 False 0)
      = take (nat 2) (sort (glob_txt ?s [''val'', ''labels'']))"
    by blast
  with srt h show ?thesis by simp
qed

text \<open>
  For the record, a negative count is a slice from the end: \<^verbatim>\<open>--count -1\<close> selects all
  label files but the last one.
\<close>

lemma pick_label_files_slice_negative:
  "fst (pick_label_files shuffle s d (- 1) False g) = butlast (sort (glob_txt s d))"
  by (simp add: pick_label_files_plain slice_to_def butlast_conv_take nat_diff_distrib')

lemma pick_label_files_order_independent:
  assumes "mset (glob_txt s1 d1) = mset (glob_txt s2 d2)"
  shows "pick_label_files shuffle s1 d1 cnt randomize g = pick_label_files shuffle s2 d2 cnt randomize g"
proof -
  have "sort (glob_txt s1 d1) = sort (glob_txt s2 d2)"
    using assms by (intro properties_for_sort) simp_all
  then show ?thesis
    by (simp add: pick_label_files_def)
qed

text \<open>
  Claim C7. With randomisation the selection is a function of the seed and of the set
  of label files alone: two runs with the same seed return the same files in the same
  order, whatever state the generator was in before and in whatever order the operating
  system enumerates the directory. The selection is the shuffled sorted list cut to
  \<open>count\<close>.
\<close>

theorem random_selection_deterministic:
  assumes "mset (glob_txt s1 (base_dir @ [split, ''labels''])) = mset (glob_txt s2 (base_dir @ [split, ''labels'']))"
  shows "fst (main_select seed_rng shuffle s1 base_dir split cnt True seed g1)
           = fst (main_select seed_rng shuffle s2 base_dir split cnt True seed g2)
       \<and> pick_label_files shuffle s1 (base_dir @ [split, ''labels'']) cnt True (seed_rng seed)
           = pick_label_files shuffle s2 (base_dir @ [split, ''labels'']) cnt True (seed_rng seed)
       \<and> fst (pick_label_files shuffle s1 (base_dir @ [split, ''labels'']) cnt True (seed_rng seed))
           = slice_to (fst (shuffle (seed_rng seed) (sort (glob_txt s1 (base_dir @ [split, ''labels''])))))
               cnt"
proof -
  let ?d = "base_dir @ [split, ''labels'']"
  have same: "pick_label_files shuffle s1 ?d cnt True (seed_rng seed)
      = pick_label_files shuffle s2 ?d cnt True (seed_rng seed)"
    using assms by (rule pick_label_files_order_independent)
  then have "fst (main_select seed_rng shuffle s1 base_dir split cnt True seed g1)
      = fst (main_select seed_rng shuffle s2 base_dir split cnt True seed g2)"
    by (simp add: main_select_def Let_def)
  moreover have "fst (pick_label_files shuffle s1 ?d cnt True (seed_rng seed))
      = slice_to (fst (shuffle (seed_rng seed) (sort (glob_txt s1 ?d)))) cnt"
    by (simp add: pick_label_files_def Let_def split: prod.splits)
  ultimately show ?thesis using same by simp
qed

theorem random_selection_deterministic_witness:
  "mset (glob_txt \<lparr>nodes = [[''d'', ''val'', ''labels''] \<mapsto> Dir [''c.txt'', ''a.txt'', ''b.txt'']], writes = []\<rparr>
           ([''d''] @ [''val'', ''labels'']))
     = mset (glob_txt \<lparr>nodes = [[''d'', ''val'', ''labels''] \<mapsto> Dir [''b.txt'', ''c.txt'', ''a.txt'']], writes = []\<rparr>
           ([''d''] @ [''val'', ''labels'']))
   \<and> fst (main_select nat (\<lambda>g xs. (rotate g xs, Suc g))
        \<lparr>nodes = [[''d'', ''val'', ''labels''] \<mapsto> Dir [''c.txt'', ''a.txt'', ''b.txt'']], writes = []\<rparr>
        [''d''] ''val'' 2 True 1 5)
     = fst (main_select nat (\<lambda>g xs. (rotate g xs, Suc g))
        \<lparr>nodes = [[''d'', ''val'', ''labels''] \<mapsto> Dir [''b.txt'', ''c.txt'', ''a.txt'']], writes = []\<rparr>
        [''d''] ''val'' 2 True 1 9)
   \<and> fst (main_select nat (\<lambda>g xs. (rotate g xs, Suc g))
        \<lparr>nodes = [[''d'', ''val'', ''labels''] \<mapsto> Dir [''c.txt'', ''a.txt'', ''b.txt'']], writes = []\<rparr>
        [''d''] ''val'' 2 True 1 5)
     = Inr [[''d'', ''val'', ''labels'', ''b.txt''], [''d'', ''val'', ''labels'', ''c.txt'']]"
proof -
  let ?s1 = "\<lparr>nodes = [[''d'', ''val'', ''labels''] \<mapsto> Dir [''c.txt'', ''a.txt'', ''b.txt'']], writes = []\<rparr>"
  let ?s2 = "\<lparr>nodes = [[''d'', ''val'', ''labels''] \<mapsto> Dir [''b.txt'', ''c.txt'', ''a.txt'']], writes = []\<rparr>"
  have h: "mset (glob_txt ?s1 ([''d''] @ [''val'', ''labels'']))
      = mset (glob_txt ?s2 ([''d''] @ [''val'', ''labels'']))"
    by (simp add: glob_txt_def has_suffix_def)
  have v: "fst (main_select nat (\<lambda>g xs. (rotate g xs, Suc g)) ?s1 [''d''] ''val'' 2 True 1 5)
      = Inr [[''d'', ''val'', ''labels'', ''b.txt''], [''d'', ''val'', ''labels'', ''c.txt'']]"
    by code_simp
  from random_selection_deterministic [OF h, of nat "\<lambda>g xs. (rotate g xs, Suc g)" 2 1 5 9] h v
  show ?thesis by blast
qed

section \<open>Display names in the preview\<close>

lemma py_index_from_end:
  assumes "i < 0" and "- int (length xs) \<le> i"
  shows "py_index xs i = Inr (rev xs ! nat (- i - 1))"
proof -
  have "nat (- i - 1) < length xs" using assms by linarith
  then have "rev xs ! nat (- i - 1) = xs ! (length xs - Suc (nat (- i - 1)))"
    by (rule rev_nth)
  moreover have "length xs - Suc (nat (- i - 1)) = nat (int (length xs) + i)"
    using assms by linarith
  ultimately show ?thesis
    using assms by (simp add: py_index_def)
qed

text \<open>
  Claim C10. The display name is guarded by an upper bound only: the synthesised name
  \<^verbatim>\<open>id_<n>\<close> is produced exactly on the branch \<open>cls_id \<ge> len(class_names)\<close>, and every
  smaller class id, negative ones included, goes through list subscripting. A negative id
  down to \<open>-len\<close> therefore reads the list from its end, and a smaller one raises
  \<^verbatim>\<open>IndexError\<close>. \<^verbatim>\<open>parse_labels\<close> does produce negative ids: the line
  \<^verbatim>\<open>-1 0.5 0.5 0.2 0.2\<close> parses to a box of class \<open>-1\<close>.
\<close>

theorem display_label_upper_bound_only:
  "display_label class_names cls_id =
     (if int (length class_names) \<le> cls_id then Inr (''id_'' @ py_str cls_id)
      else py_index class_names cls_id)
   \<and> (0 \<le> cls_id \<and> cls_id < int (length class_names)
        \<longrightarrow> display_label class_names cls_id = Inr (class_names ! nat cls_id))
   \<and> (cls_id < 0 \<and> - int (length class_names) \<le> cls_id
        \<longrightarrow> display_label class_names cls_id = Inr (rev class_names ! nat (- cls_id - 1)))
   \<and> (cls_id < - int (length class_names) \<longrightarrow> display_label class_names cls_id = Inl IndexError)
   \<and> (to_float ''0.5'' = Some a \<and> to_float ''0.2'' = Some b
        \<longrightarrow> parse_lines to_float [''-1 0.5 0.5 0.2 0.2''] [] = Inr [(- 1, a, a, b, b)])"
proof -
  have 1: "display_label class_names cls_id =
     (if int (length class_names) \<le> cls_id then Inr (''id_'' @ py_str cls_id)
      else py_index class_names cls_id)"
    by (simp add: display_label_def)
  have 2: "0 \<le> cls_id \<and> cls_id < int (length class_names)
        \<longrightarrow> display_label class_names cls_id = Inr (class_names ! nat cls_id)"
    by (simp add: display_label_def py_index_def)
  have 3: "cls_id < 0 \<and> - int (length class_names) \<le> cls_id
        \<longrightarrow> display_label class_names cls_id = Inr (rev class_names ! nat (- cls_id - 1))"
    using py_index_from_end [of cls_id class_names] by (simp add: display_label_def)
  have 4: "cls_id < - int (length class_names) \<longrightarrow> display_label class_names cls_id = Inl IndexError"
    by (simp add: display_label_def py_index_def)
  have sp: "py_split ''-1 0.5 0.5 0.2 0.2'' = [''-1'', ''0.5'', ''0.5'', ''0.2'', ''0.2'']"
    by code_simp
  have i: "py_int ''-1'' = Some (- 1)"
    by code_simp
  have 5: "to_float ''0.5'' = Some a \<and> to_float ''0.2'' = Some b
        \<longrightarrow> parse_lines to_float [''-1 0.5 0.5 0.2 0.2''] [] = Inr [(- 1, a, a, b, b)]"
    by (simp add: sp i)
  from 1 2 3 4 5 show ?thesis by blast
qed

theorem display_label_upper_bound_only_witness:
  "(- 1 :: int) < 0 \<and> - int (length [''header'', ''body'', ''footer'']) \<le> - 1
   \<and> display_label [''header'', ''body'', ''footer''] (- 1) = Inr ''footer''
   \<and> (0::int) \<le> 1 \<and> 1 < int (length [''header'', ''body'', ''footer''])
   \<and> display_label [''header'', ''body'', ''footer''] 1 = Inr ''body''
   \<and> display_label [''header'', ''body'', ''footer''] 3 = Inr ''id_3''
   \<and> - 4 < - int (length [''header'', ''body'', ''footer''])
   \<and> display_label [''header'', ''body'', ''footer''] (- 4) = Inl IndexError
   \<and> parse_lines (\<lambda>t. if t = ''0.5'' then Some (1 / 2) else if t = ''0.2'' then Some (1 / 5) else None)
        [''-1 0.5 0.5 0.2 0.2''] [] = Inr [(- 1, 1 / 2, 1 / 2, 1 / 5, 1 / 5)]"
proof -
  let ?names = "[''header'', ''body'', ''footer'']"
  let ?f = "\<lambda>t. if t = ''0.5'' then Some (1 / 2 :: real) else if t = ''0.2'' then Some (1 / 5) else None"
  have h1: "(- 1 :: int) < 0 \<and> - int (length ?names) \<le> - 1" by simp
  have h2: "(0::int) \<le> 1 \<and> 1 < int (length ?names)" by simp
  have h3: "\<not> int (length ?names) \<le> - 1" by simp
  have h4: "- 4 < - int (length ?names)" by simp
  have h5: "?f ''0.5'' = Some (1 / 2) \<and> ?f ''0.2'' = Some (1 / 5)" by simp
  have s3: "py_str 3 = ''3''" by code_simp
  note t1 = display_label_upper_bound_only [of ?names "- 1" ?f "1 / 2" "1 / 5"]
  from t1 h1 have "display_label ?names (- 1) = Inr (rev ?names ! nat (- (- 1) - 1))"
    by blast
  then have a: "display_label ?names (- 1) = Inr ''footer''" by simp
  from t1 h5 have e: "parse_lines ?f [''-1 0.5 0.5 0.2 0.2''] [] = Inr [(- 1, 1 / 2, 1 / 2, 1 / 5, 1 / 5)]"
    by blast
  from display_label_upper_bound_only [of ?names 1] h2
  have "display_label ?names 1 = Inr (?names ! nat 1)" by blast
  then have b: "display_label ?names 1 = Inr ''body''" by simp
  from display_label_upper_bound_only [of ?names 3]
  have "display_label ?names 3 = (if int (length ?names) \<le> 3 then Inr (''id_'' @ py_str 3)
      else py_index ?names 3)" by blast
  then have c: "display_label ?names 3 = Inr ''id_3''" by (simp add: s3)
  from display_label_upper_bound_only [of ?names "- 4"] h4
  have d: "display_label ?names (- 4) = Inl IndexError" by blast
  from h1 h2 h4 a b c d e show ?thesis by blast
qed

section \<open>Blank lines\<close>

text \<open>
  Both loops drop the lines they test as blank: the remapper every line that is empty
  after \<^verbatim>\<open>strip()\<close>, the previewer only the empty line. A line of whitespace
  alone therefore reaches the tuple assignment of the previewer with no token.
\<close>

lemma remap_lines_skips_blank:
  "remap_lines path mapping lines changed new_lines
     = remap_lines path mapping (filter (\<lambda>l. strip l \<noteq> []) lines) changed new_lines"
proof (induction lines arbitrary: changed new_lines)
  case Nil
  show ?case by simp
next
  case (Cons l ls)
  show ?case
  proof (cases "strip l = []")
    case True
    with Cons show ?thesis by simp
  next
    case False
    with Cons show ?thesis
      by (simp split: list.splits option.splits)
  qed
qed

lemma parse_lines_skips_empty:
  "parse_lines to_float lines boxes = parse_lines to_float (filter (\<lambda>l. l \<noteq> []) lines) boxes"
proof (induction lines arbitrary: boxes)
  case Nil
  show ?case by simp
next
  case (Cons l ls)
  show ?case
  proof (cases "l = []")
    case True
    with Cons show ?thesis by simp
  next
    case False
    with Cons show ?thesis
      by (simp split: list.splits option.splits)
  qed
qed

lemma parse_lines_blank_line_fails:
  assumes "l \<noteq> []" and "strip l = []"
  shows "parse_lines to_float (l # lines) boxes = Inl (UnpackError 0)"
proof -
  from assms(2) have "py_split l = []"
    by (simp add: py_split_empty_iff)
  with assms(1) show ?thesis by simp
qed

text \<open>
  Claim C5, evaluated at a file whose middle line is a single blank. The remapper
  skips that line (it tests \<^verbatim>\<open>line.strip()\<close>) and rewrites the file; the previewer tests
  \<^verbatim>\<open>line\<close> itself, takes the blank line for a record and fails in the tuple assignment
  with zero tokens, unless a float conversion of the first line has already failed.
\<close>

theorem parse_labels_whitespace_line:
  "parse_labels to_float
     \<lparr>nodes = [[''labels'', ''p1.txt''] \<mapsto> TextFile ''0 0.5 0.5 0.2 0.2\<newline> \<newline>1 0.5 0.5 0.2 0.2\<newline>''],
      writes = []\<rparr> [''labels'', ''p1.txt'']
     = (if to_float ''0.5'' = None then Inl (InvalidFloatLiteral ''0.5'')
        else if to_float ''0.2'' = None then Inl (InvalidFloatLiteral ''0.2'')
        else Inl (UnpackError 0))
   \<and> fst (remap_file
       \<lparr>nodes = [[''labels'', ''p1.txt''] \<mapsto> TextFile ''0 0.5 0.5 0.2 0.2\<newline> \<newline>1 0.5 0.5 0.2 0.2\<newline>''],
        writes = []\<rparr> [''labels'', ''p1.txt''] [0 \<mapsto> 1, 1 \<mapsto> 0]) = Inr True"
proof -
  have ls: "splitlines (strip ''0 0.5 0.5 0.2 0.2\<newline> \<newline>1 0.5 0.5 0.2 0.2\<newline>'')
      = [''0 0.5 0.5 0.2 0.2'', '' '', ''1 0.5 0.5 0.2 0.2'']"
    by code_simp
  have sp0: "py_split ''0 0.5 0.5 0.2 0.2'' = [''0'', ''0.5'', ''0.5'', ''0.2'', ''0.2'']"
    by code_simp
  have sp1: "py_split '' '' = []"
    by code_simp
  have i0: "py_int ''0'' = Some 0"
    by code_simp
  have a: "parse_lines to_float [''0 0.5 0.5 0.2 0.2'', '' '', ''1 0.5 0.5 0.2 0.2''] []
      = (if to_float ''0.5'' = None then Inl (InvalidFloatLiteral ''0.5'')
         else if to_float ''0.2'' = None then Inl (InvalidFloatLiteral ''0.2'')
         else Inl (UnpackError 0))"
    by (simp add: sp0 sp1 i0 split: option.splits)
  have b: "fst (remap_file
       \<lparr>nodes = [[''labels'', ''p1.txt''] \<mapsto> TextFile ''0 0.5 0.5 0.2 0.2\<newline> \<newline>1 0.5 0.5 0.2 0.2\<newline>''],
        writes = []\<rparr> [''labels'', ''p1.txt''] [0 \<mapsto> 1, 1 \<mapsto> 0]) = Inr True"
    by code_simp
  show ?thesis
    using a b by (simp add: parse_labels_def read_text_def ls)
qed

end
